theory Spec2Isabelle
  imports Main "HOL-Library.Word"
begin

section \<open>A stack-language compiler: scanner, operation parser, code generator\<close>

text \<open>
  The program is \<^verbatim>\<open>src/main.py\<close>. Python strings are modelled as \<^typ>\<open>string\<close>: a list of
  code points below 256. Python integers are unbounded and modelled as \<^typ>\<open>int\<close>;
  indices, rows and columns are never negative and modelled as \<^typ>\<open>nat\<close>.

  Since Python 3.11 the conversions between integers and decimal text (\<^verbatim>\<open>int(s)\<close>, \<^verbatim>\<open>str\<close>,
  \<^verbatim>\<open>repr\<close>, \<^verbatim>\<open>%d\<close>, \<^verbatim>\<open>%s\<close>) raise \<^verbatim>\<open>ValueError\<close> when the number has more than
  \<^verbatim>\<open>sys.get_int_max_str_digits()\<close> digits. That limit is the parameter \<open>maxd\<close> of the
  functions below: 4300 unless set otherwise, 0 for no limit, and never acting on numbers of
  at most 640 digits.
\<close>

subsection \<open>Built-ins of the language that the program relies on\<close>

text \<open>
  \<^verbatim>\<open>str.isspace\<close> on one character. Below 256 the white-space code points are
  \<^verbatim>\<open>\t \n \v \f \r\<close> (9 to 13), the separators 28 to 31, the blank 32, and 0x85 and 0xA0.
\<close>

definition isspace :: "char \<Rightarrow> bool" where
  "isspace c =
     (let n = (of_char c :: nat)
      in (9 \<le> n \<and> n \<le> 13) \<or> (28 \<le> n \<and> n \<le> 32) \<or> n = 133 \<or> n = 160)"

text \<open>The slice \<^verbatim>\<open>line[i:j]\<close> for indices that are not negative.\<close>

definition slice :: "'a list \<Rightarrow> nat \<Rightarrow> nat \<Rightarrow> 'a list" where
  "slice line i j = take (j - i) (drop i line)"

subsection \<open>Scanner\<close>

text \<open>
  \<^verbatim>\<open>
  def find_col(line, start, predecate):
      while start < len(line) and not predecate(line[start]):
          start += 1
      return start
  \<close>
\<close>

function find_col :: "string \<Rightarrow> nat \<Rightarrow> (char \<Rightarrow> bool) \<Rightarrow> nat" where
  "find_col line start predecate =
     (if start < length line \<and> \<not> predecate (line ! start)
      then find_col line (start + 1) predecate
      else start)"
  by pat_completeness auto
termination
  by (relation "measure (\<lambda>(line, start, predecate). length line - start)") auto

declare find_col.simps [simp del]

lemma find_col_step:
  "start < length line \<Longrightarrow> \<not> p (line ! start) \<Longrightarrow>
   find_col line start p = find_col line (start + 1) p"
  by (subst find_col.simps) simp

lemma find_col_done:
  "\<not> (start < length line \<and> \<not> p (line ! start)) \<Longrightarrow> find_col line start p = start"
  by (subst find_col.simps) auto

lemma find_col_ge: "start \<le> find_col line start p"
proof (induction line start p rule: find_col.induct)
  case (1 line start p)
  show ?case
  proof (cases "start < length line \<and> \<not> p (line ! start)")
    case True
    with "1.IH" have "start + 1 \<le> find_col line (start + 1) p" by simp
    with True show ?thesis by (simp add: find_col_step)
  next
    case False
    then have "find_col line start p = start" by (rule find_col_done)
    then show ?thesis by simp
  qed
qed

lemma find_col_le: "start \<le> length line \<Longrightarrow> find_col line start p \<le> length line"
proof (induction line start p rule: find_col.induct)
  case (1 line start p)
  show ?case
  proof (cases "start < length line \<and> \<not> p (line ! start)")
    case True
    with "1.IH" have "find_col line (start + 1) p \<le> length line" by simp
    with True show ?thesis by (simp add: find_col_step)
  next
    case False
    then have "find_col line start p = start" by (rule find_col_done)
    with "1.prems" show ?thesis by simp
  qed
qed

lemma find_col_skipped:
  "start \<le> k \<Longrightarrow> k < find_col line start p \<Longrightarrow> \<not> p (line ! k) \<and> k < length line"
proof (induction line start p rule: find_col.induct)
  case (1 line start p)
  show ?case
  proof (cases "start < length line \<and> \<not> p (line ! start)")
    case True
    show ?thesis
    proof (cases "k = start")
      case True
      with \<open>start < length line \<and> \<not> p (line ! start)\<close> show ?thesis by simp
    next
      case False
      with "1.prems" have "start + 1 \<le> k" by simp
      moreover from True "1.prems" have "k < find_col line (start + 1) p"
        by (simp add: find_col_step)
      ultimately show ?thesis using "1.IH" True by simp
    qed
  next
    case False
    then have "find_col line start p = start" by (rule find_col_done)
    with "1.prems" show ?thesis by simp
  qed
qed

lemma find_col_stop:
  "find_col line start p < length line \<Longrightarrow> p (line ! find_col line start p)"
proof (induction line start p rule: find_col.induct)
  case (1 line start p)
  show ?case
  proof (cases "start < length line \<and> \<not> p (line ! start)")
    case True
    with "1.prems" have "find_col line (start + 1) p < length line"
      by (simp add: find_col_step)
    with "1.IH" True have "p (line ! find_col line (start + 1) p)" by simp
    with True show ?thesis by (simp add: find_col_step)
  next
    case False
    then have "find_col line start p = start" by (rule find_col_done)
    with "1.prems" False show ?thesis by auto
  qed
qed

lemma find_col_progress:
  "col < length line \<Longrightarrow>
   col < find_col line (find_col line col isspace) (\<lambda>x. \<not> isspace x)"
proof (cases "isspace (line ! col)")
  case True
  assume "col < length line"
  with True have "find_col line col (\<lambda>x. \<not> isspace x) =
      find_col line (col + 1) (\<lambda>x. \<not> isspace x)"
    by (simp add: find_col_step)
  moreover have "col + 1 \<le> find_col line (col + 1) (\<lambda>x. \<not> isspace x)"
    by (rule find_col_ge)
  moreover have "col \<le> find_col line col isspace"
    by (rule find_col_ge)
  moreover have "find_col line col isspace
      \<le> find_col line (find_col line col isspace) (\<lambda>x. \<not> isspace x)"
    by (rule find_col_ge)
  ultimately show ?thesis
    by (cases "find_col line col isspace = col") auto
next
  case False
  assume "col < length line"
  with False have "find_col line col isspace = find_col line (col + 1) isspace"
    by (simp add: find_col_step)
  moreover have "col + 1 \<le> find_col line (col + 1) isspace"
    by (rule find_col_ge)
  moreover have "find_col line col isspace
      \<le> find_col line (find_col line col isspace) (\<lambda>x. \<not> isspace x)"
    by (rule find_col_ge)
  ultimately show ?thesis by simp
qed

text \<open>
  \<^verbatim>\<open>
  def lex_line(line):
      col = find_col(line, 0, lambda x: not x.isspace())
      while col < len(line):
          col_end = find_col(line, col, lambda x: x.isspace())
          yield (col, line[col:col_end])
          col = find_col(line, col_end, lambda x: not x.isspace())
  \<close>
  The generator is modelled by the list of the pairs it yields; \<open>lex_line_loop\<close> is
  its \<^verbatim>\<open>while\<close> loop, entered with the current \<^verbatim>\<open>col\<close>.
\<close>

function lex_line_loop :: "string \<Rightarrow> nat \<Rightarrow> (nat \<times> string) list" where
  "lex_line_loop line col =
     (if col < length line
      then (let col_end = find_col line col isspace
            in (col, slice line col col_end)
               # lex_line_loop line (find_col line col_end (\<lambda>x. \<not> isspace x)))
      else [])"
  by pat_completeness auto
termination
proof (relation "measure (\<lambda>(line, col). length line - col)")
  show "wf (measure (\<lambda>(line, col). length line - col))" by simp
next
  fix line :: string and col col_end :: nat
  assume "col < length line" and "col_end = find_col line col isspace"
  then have "col < find_col line col_end (\<lambda>x. \<not> isspace x)"
    by (simp add: find_col_progress)
  with \<open>col < length line\<close>
  show "((line, find_col line col_end (\<lambda>x. \<not> isspace x)), (line, col))
        \<in> measure (\<lambda>(line, col). length line - col)"
    by simp
qed

declare lex_line_loop.simps [simp del]

definition lex_line :: "string \<Rightarrow> (nat \<times> string) list" where
  "lex_line line = lex_line_loop line (find_col line 0 (\<lambda>x. \<not> isspace x))"

subsection \<open>Values, exceptions and formatting\<close>

text \<open>
  \<^verbatim>\<open>class Op(Enum)\<close> with its four members. An operation is a Python tuple whose first
  component is an \<open>Op\<close> member, followed by the operands; the components that the
  program builds are enum members and integers. \<open>NoneV\<close> is Python's \<^verbatim>\<open>None\<close>, a value of
  another kind.
\<close>

datatype Op = OP_PUSH_INT | OP_PLUS | OP_MINUS | OP_DUMP

datatype pyval = OpV Op | IntV int | NoneV

type_synonym pytuple = "pyval list"

text \<open>The exceptions that the program or the built-ins it calls can raise, with their messages.\<close>

datatype error =
    Exception string
  | ValueError string
  | IndexError string
  | TypeError string
  | OSError string

fun message :: "error \<Rightarrow> string" where
  "message (Exception m) = m"
| "message (ValueError m) = m"
| "message (IndexError m) = m"
| "message (TypeError m) = m"
| "message (OSError m) = m"

text \<open>
  The decimal text of an integer. Rows and columns are formatted with it directly: a
  file has far fewer than \<open>10 ^ 640\<close> lines or columns, so the limit on digits cannot act
  on them.
\<close>

fun str_nat :: "nat \<Rightarrow> string" where
  "str_nat n =
     (if n < 10 then [''0123456789'' ! n]
      else str_nat (n div 10) @ [''0123456789'' ! (n mod 10)])"

declare str_nat.simps [simp del]

definition str_int :: "int \<Rightarrow> string" where
  "str_int i = (if i < 0 then CHR ''-'' # str_nat (nat (- i)) else str_nat (nat i))"

text \<open>
  The text of an integer as \<^verbatim>\<open>str\<close>, \<^verbatim>\<open>repr\<close>, \<^verbatim>\<open>%d\<close> and \<^verbatim>\<open>%s\<close> give it: \<^verbatim>\<open>ValueError\<close> when
  the number has more digits than the limit allows (the sign does not count).
\<close>

definition int_to_str :: "nat \<Rightarrow> int \<Rightarrow> error + string" where
  "int_to_str maxd i =
     (let n = length (str_nat (nat \<bar>i\<bar>))
      in if 640 < n \<and> 0 < maxd \<and> maxd < n
         then Inl (ValueError (''Exceeds the limit ('' @ str_nat maxd
                @ '' digits) for integer string conversion; ''
                @ ''use sys.set_int_max_str_digits() to increase the limit''))
         else Inr (str_int i))"

text \<open>\<^verbatim>\<open>Op.__str__\<close> and \<^verbatim>\<open>Op.__repr__\<close> both return the member's name.\<close>

fun Op_name :: "Op \<Rightarrow> string" where
  "Op_name OP_PUSH_INT = ''OP_PUSH_INT''"
| "Op_name OP_PLUS = ''OP_PLUS''"
| "Op_name OP_MINUS = ''OP_MINUS''"
| "Op_name OP_DUMP = ''OP_DUMP''"

text \<open>\<^verbatim>\<open>str(v)\<close> and \<^verbatim>\<open>repr(v)\<close>, which agree on these values, and so \<^verbatim>\<open>"%s" % v\<close>.\<close>

fun py_str :: "nat \<Rightarrow> pyval \<Rightarrow> error + string" where
  "py_str maxd (OpV x) = Inr (Op_name x)"
| "py_str maxd (IntV i) = int_to_str maxd i"
| "py_str maxd NoneV = Inr ''None''"

text \<open>\<^verbatim>\<open>"%d" % v\<close>: an enum member and \<^verbatim>\<open>None\<close> are not numbers.\<close>

fun format_d :: "nat \<Rightarrow> pyval \<Rightarrow> error + string" where
  "format_d maxd (IntV i) = int_to_str maxd i"
| "format_d maxd (OpV x) = Inl (TypeError ''%d format: a real number is required, not Op'')"
| "format_d maxd NoneV = Inl (TypeError ''%d format: a real number is required, not NoneType'')"

text \<open>The results of a list of computations in order, or the first exception among them.\<close>

fun collect :: "(error + 'a) list \<Rightarrow> error + 'a list" where
  "collect [] = Inr []"
| "collect (Inl e # rs) = Inl e"
| "collect (Inr x # rs) = (case collect rs of Inl e \<Rightarrow> Inl e | Inr xs \<Rightarrow> Inr (x # xs))"

text \<open>\<^verbatim>\<open>sep.join(parts)\<close>, and the \<^verbatim>\<open>repr\<close> of a tuple and of a list of tuples.\<close>

fun join :: "string \<Rightarrow> string list \<Rightarrow> string" where
  "join sep [] = []"
| "join sep [x] = x"
| "join sep (x # y # ys) = x @ sep @ join sep (y # ys)"

definition repr_tuple :: "nat \<Rightarrow> pytuple \<Rightarrow> error + string" where
  "repr_tuple maxd t =
     (case collect (map (py_str maxd) t) of
        Inl e \<Rightarrow> Inl e
      | Inr [x] \<Rightarrow> Inr (''('' @ x @ '',)'')
      | Inr parts \<Rightarrow> Inr (''('' @ join '', '' parts @ '')''))"

definition repr_list :: "nat \<Rightarrow> pytuple list \<Rightarrow> error + string" where
  "repr_list maxd ops =
     (case collect (map (repr_tuple maxd) ops) of
        Inl e \<Rightarrow> Inl e
      | Inr parts \<Rightarrow> Inr (''['' @ join '', '' parts @ '']''))"

subsection \<open>The built-in \<^verbatim>\<open>int(text)\<close>\<close>

text \<open>
  \<^verbatim>\<open>int(s)\<close> for a string and base 10, as CPython implements it: white space is skipped on
  both sides (the C-locale white space 9 to 13 and 32, and the non-ASCII white space, which
  is 0x85 and 0xA0 below code point 256; the separators 28 to 31 are not skipped); one sign
  \<^verbatim>\<open>+\<close> or \<^verbatim>\<open>-\<close> may follow; then come digits, where single underscores may stand between
  two digits. A text with more digits than the limit \<open>maxd\<close> allows is refused as well.
  \<open>None\<close> stands for \<^verbatim>\<open>ValueError\<close>.
\<close>

definition int_space :: "char \<Rightarrow> bool" where
  "int_space c =
     (let n = (of_char c :: nat)
      in (9 \<le> n \<and> n \<le> 13) \<or> n = 32 \<or> n = 133 \<or> n = 160)"

definition is_digit :: "char \<Rightarrow> bool" where
  "is_digit c = (let n = (of_char c :: nat) in 48 \<le> n \<and> n \<le> 57)"

definition digit_val :: "char \<Rightarrow> nat" where
  "digit_val c = of_char c - 48"

text \<open>
  The scan over digits and underscores: \<open>prev\<close> is the character before, \<open>digits\<close> counts
  the digits seen, \<open>acc\<close> is their value so far. The result is the count, the value and
  the text that is left; \<open>None\<close> is a doubled or a trailing underscore.
\<close>

fun scan_digits :: "string \<Rightarrow> char \<Rightarrow> nat \<Rightarrow> int \<Rightarrow> (nat \<times> int \<times> string) option" where
  "scan_digits [] prev digits acc =
     (if prev = CHR ''_'' then None else Some (digits, acc, []))"
| "scan_digits (c # cs) prev digits acc =
     (if c = CHR ''_'' then (if prev = CHR ''_'' then None else scan_digits cs c digits acc)
      else if is_digit c then scan_digits cs c (digits + 1) (acc * 10 + int (digit_val c))
      else if prev = CHR ''_'' then None
      else Some (digits, acc, c # cs))"

definition py_int :: "nat \<Rightarrow> string \<Rightarrow> int option" where
  "py_int maxd s =
     (let s1 = dropWhile int_space s;
          (sign, s2) = (case s1 of
                          [] \<Rightarrow> (1, [])
                        | c # r \<Rightarrow> if c = CHR ''+'' then (1, r)
                                   else if c = CHR ''-'' then (- 1, r)
                                   else (1, s1))
      in if s2 \<noteq> [] \<and> hd s2 = CHR ''_'' then None
         else (case scan_digits s2 (CHR 0x00) 0 0 of
                 None \<Rightarrow> None
               | Some (digits, v, rest) \<Rightarrow>
                   if length rest = length s2 then None
                   else if dropWhile int_space rest \<noteq> [] then None
                   else if 640 < digits \<and> 0 < maxd \<and> maxd < digits then None
                   else Some (sign * v)))"

subsection \<open>Reading the file\<close>

text \<open>
  \<^verbatim>\<open>
  def lex_file(file):
      with open(file, 'r') as f:
          return [(file, row, col, token)
                  for (row, line) in enumerate(f.readlines())
                  for (col, token) in lex_line(line)]
  \<close>
  The file system is a parameter: \<open>fs file\<close> is the list of lines that
  \<^verbatim>\<open>f.readlines()\<close> returns, or the exception that opening or reading raises.
\<close>

type_synonym token = "string \<times> nat \<times> nat \<times> string"

definition lex_file :: "(string \<Rightarrow> error + string list) \<Rightarrow> string \<Rightarrow> error + token list" where
  "lex_file fs file =
     (case fs file of
        Inl e \<Rightarrow> Inl e
      | Inr lines \<Rightarrow>
          Inr (concat (map (\<lambda>(row, line). map (\<lambda>(col, token). (file, row, col, token)) (lex_line line))
                           (enumerate 0 lines))))"

subsection \<open>Operation parser\<close>

text \<open>
  \<^verbatim>\<open>
  def parse_token_as_op(token):
      if token == '+':   return (Op.OP_PLUS, )
      elif token == '-': return (Op.OP_MINUS, )
      elif token == '.': return (Op.OP_DUMP, )
      else:
          try: return (Op.OP_PUSH_INT, int(token))
          except ValueError: raise Exception(f"Invalid token {token}")
  \<close>
\<close>

definition parse_token_as_op :: "nat \<Rightarrow> string \<Rightarrow> error + pytuple" where
  "parse_token_as_op maxd token =
     (if token = ''+'' then Inr [OpV OP_PLUS]
      else if token = ''-'' then Inr [OpV OP_MINUS]
      else if token = ''.'' then Inr [OpV OP_DUMP]
      else (case py_int maxd token of
              Some i \<Rightarrow> Inr [OpV OP_PUSH_INT, IntV i]
            | None \<Rightarrow> Inl (Exception (''Invalid token '' @ token))))"

text \<open>
  \<^verbatim>\<open>
  def parse_file(file):
      ops = []
      for (file, row, col, token) in lex_file(file):
          try:
              ops.append(parse_token_as_op(token))
          except Exception as e:
              print(f"Error at %s:%d:%d: %s" % (file, row + 1, col + 1, e))
              return []
      return ops
  \<close>
  \<open>parse_loop\<close> is the \<^verbatim>\<open>for\<close> loop with the list \<^verbatim>\<open>ops\<close> built so far; the result
  is the list of lines printed and the list returned. An exception of \<^verbatim>\<open>lex_file\<close> is
  not caught.
\<close>

fun parse_loop :: "nat \<Rightarrow> token list \<Rightarrow> pytuple list \<Rightarrow> string list \<times> pytuple list" where
  "parse_loop maxd [] ops = ([], ops)"
| "parse_loop maxd ((file, row, col, token) # rest) ops =
     (case parse_token_as_op maxd token of
        Inl e \<Rightarrow>
          ([''Error at '' @ file @ '':'' @ str_int (int row + 1) @ '':''
              @ str_int (int col + 1) @ '': '' @ message e], [])
      | Inr op \<Rightarrow> parse_loop maxd rest (ops @ [op]))"

definition parse_file ::
  "nat \<Rightarrow> (string \<Rightarrow> error + string list) \<Rightarrow> string \<Rightarrow> error + string list \<times> pytuple list" where
  "parse_file maxd fs file =
     (case lex_file fs file of
        Inl e \<Rightarrow> Inl e
      | Inr tokens \<Rightarrow> Inr (parse_loop maxd tokens []))"

subsection \<open>Code generator\<close>

text \<open>The text that \<^verbatim>\<open>compile_ops\<close> emits before and after the operations, line by line.\<close>

definition dump_subroutine :: string where
  "dump_subroutine =
        ''BITS 64\<newline>''
      @ ''segment .text\<newline>''
      @ ''dump:\<newline>''
      @ ''    mov     r9, -3689348814741910323\<newline>''
      @ ''    sub     rsp, 40\<newline>''
      @ ''    mov     BYTE [rsp+31], 10\<newline>''
      @ ''    lea     rcx, [rsp+30]\<newline>''
      @ ''.L2:\<newline>''
      @ ''    mov     rax, rdi\<newline>''
      @ ''    lea     r8, [rsp+32]\<newline>''
      @ ''    mul     r9\<newline>''
      @ ''    mov     rax, rdi\<newline>''
      @ ''    sub     r8, rcx\<newline>''
      @ ''    shr     rdx, 3\<newline>''
      @ ''    lea     rsi, [rdx+rdx*4]\<newline>''
      @ ''    add     rsi, rsi\<newline>''
      @ ''    sub     rax, rsi\<newline>''
      @ ''    add     eax, 48\<newline>''
      @ ''    mov     BYTE [rcx], al\<newline>''
      @ ''    mov     rax, rdi\<newline>''
      @ ''    mov     rdi, rdx\<newline>''
      @ ''    mov     rdx, rcx\<newline>''
      @ ''    sub     rcx, 1\<newline>''
      @ ''    cmp     rax, 9\<newline>''
      @ ''    ja      .L2\<newline>''
      @ ''    lea     rax, [rsp+32]\<newline>''
      @ ''    mov     edi, 1\<newline>''
      @ ''    sub     rdx, rax\<newline>''
      @ ''    xor     eax, eax\<newline>''
      @ ''    lea     rsi, [rsp+32+rdx]\<newline>''
      @ ''    mov     rdx, r8\<newline>''
      @ ''    mov     rax, 1\<newline>''
      @ ''    syscall\<newline>''
      @ ''    add     rsp, 40\<newline>''
      @ ''    ret\<newline>''"

definition entry_point :: string where
  "entry_point =
        ''global _start\<newline>''
      @ ''_start:\<newline>''"

definition exit_epilogue :: string where
  "exit_epilogue =
        ''    ;; -- exit --\<newline>''
      @ ''    mov rax, 60\<newline>''
      @ ''    mov rdi, 0\<newline>''
      @ ''    syscall\<newline>''"

text \<open>
  \<^verbatim>\<open>
  for op in ops:
      (op, *args) = op
      match op:
          case Op.OP_PUSH_INT:
              out += "    ;; -- push %d --\n" % args[0]
              out += "    push %d\n" % args[0]
          case Op.OP_PLUS:  ...
          case Op.OP_MINUS: ...
          case Op.OP_DUMP:  ...
          case _:
              raise Exception("Invalid op %s" % op)
  \<close>
  Unpacking the empty tuple raises \<^verbatim>\<open>ValueError\<close>, \<^verbatim>\<open>args[0]\<close> of an empty list raises
  \<^verbatim>\<open>IndexError\<close>, and the formatting with \<^verbatim>\<open>%d\<close> and \<^verbatim>\<open>%s\<close> raises what \<open>format_d\<close> and
  \<open>py_str\<close> raise.
\<close>

fun compile_loop :: "nat \<Rightarrow> pytuple list \<Rightarrow> string \<Rightarrow> error + string" where
  "compile_loop maxd [] out = Inr out"
| "compile_loop maxd ([] # ops) out =
     Inl (ValueError ''not enough values to unpack (expected at least 1, got 0)'')"
| "compile_loop maxd ((op # args) # ops) out =
     (if op = OpV OP_PUSH_INT then
        (case args of
           [] \<Rightarrow> Inl (IndexError ''list index out of range'')
         | a # _ \<Rightarrow>
             (case format_d maxd a of
                Inl e \<Rightarrow> Inl e
              | Inr d \<Rightarrow>
                  compile_loop maxd ops
                    (out @ ''    ;; -- push '' @ d @ '' --\<newline>''
                         @ ''    push '' @ d @ ''\<newline>'')))
      else if op = OpV OP_PLUS then
        compile_loop maxd ops
          (out @ ''    ;; -- add --\<newline>''
               @ ''    pop rax\<newline>''
               @ ''    pop rbx\<newline>''
               @ ''    add rax, rbx\<newline>''
               @ ''    push rax\<newline>'')
      else if op = OpV OP_MINUS then
        compile_loop maxd ops
          (out @ ''    ;; -- sub --\<newline>''
               @ ''    pop rax\<newline>''
               @ ''    pop rbx\<newline>''
               @ ''    sub rbx, rax\<newline>''
               @ ''    push rbx\<newline>'')
      else if op = OpV OP_DUMP then
        compile_loop maxd ops
          (out @ ''    ;; -- dump --\<newline>''
               @ ''    pop rdi\<newline>''
               @ ''    call dump\<newline>'')
      else (case py_str maxd op of
              Inl e \<Rightarrow> Inl e
            | Inr s \<Rightarrow> Inl (Exception (''Invalid op '' @ s))))"

definition compile_ops :: "nat \<Rightarrow> pytuple list \<Rightarrow> error + string" where
  "compile_ops maxd ops =
     (case compile_loop maxd ops (dump_subroutine @ entry_point) of
        Inl e \<Rightarrow> Inl e
      | Inr out \<Rightarrow> Inr (out @ exit_epilogue))"

subsection \<open>Driver\<close>

text \<open>
  What a run of \<^verbatim>\<open>main\<close> does to the outside: the lines it prints, the file it writes,
  the programs it starts, and an exception that nothing catches. The outside is a
  parameter: \<open>world a\<close> is the exception that writing the file or starting the program
  \<open>a\<close> raises, if any.
\<close>

datatype event =
    Print string
  | WriteFile string string
  | Run "string list"
  | Uncaught error

text \<open>
  The body of the \<^verbatim>\<open>try\<close> statement after code generation: the actions in order, up to
  the first that raises; \<^verbatim>\<open>except Exception as e: print(e)\<close> prints its message. An action
  that raises is not recorded as done, and printing is taken not to raise.
\<close>

fun perform :: "(event \<Rightarrow> error option) \<Rightarrow> event list \<Rightarrow> event list" where
  "perform world [] = []"
| "perform world (Print s # rest) = Print s # perform world rest"
| "perform world (a # rest) =
     (case world a of
        Some e \<Rightarrow> [Print (message e)]
      | None \<Rightarrow> a # perform world rest)"

text \<open>
  \<^verbatim>\<open>
  def main():
      if len(argv) < 2:
          print("Usage: main.py <file>"); return
      ops = parse_file(argv[1])
      print(ops)
      if len(ops) == 0: return
      try:
          out = compile_ops(ops)
          with open("out.asm", 'w') as f: f.write(out)
          print("Compiled to out.asm")
          print("Running nasm..."); subprocess.run(["nasm", "-felf64", "out.asm"])
          print("Linking...");      subprocess.run(["ld", "-o", "out", "out.o"])
          print("Running...");      subprocess.run(["./out"])
      except Exception as e:
          print(e)
  \<close>
\<close>

definition main ::
  "nat \<Rightarrow> (string \<Rightarrow> error + string list) \<Rightarrow> (event \<Rightarrow> error option) \<Rightarrow> string list \<Rightarrow> event list" where
  "main maxd fs world argv =
     (if length argv < 2 then [Print ''Usage: main.py <file>'']
      else (case parse_file maxd fs (argv ! 1) of
              Inl e \<Rightarrow> [Uncaught e]
            | Inr (printed, ops) \<Rightarrow>
                map Print printed
                @ (case repr_list maxd ops of
                     Inl e \<Rightarrow> [Uncaught e]
                   | Inr shown \<Rightarrow>
                       Print shown
                       # (if length ops = 0 then []
                          else (case compile_ops maxd ops of
                                  Inl e \<Rightarrow> [Print (message e)]
                                | Inr out \<Rightarrow>
                                    perform world
                                      [WriteFile ''out.asm'' out,
                                       Print ''Compiled to out.asm'',
                                       Print ''Running nasm...'',
                                       Run [''nasm'', ''-felf64'', ''out.asm''],
                                       Print ''Linking...'',
                                       Run [''ld'', ''-o'', ''out'', ''out.o''],
                                       Print ''Running...'',
                                       Run [''./out'']])))))"

section \<open>The emitted instructions and their meaning\<close>

text \<open>
  The instructions that the code generator emits after \<^verbatim>\<open>_start:\<close>, as a datatype, with
  \<open>render\<close> giving the line of NASM text of each. Their meaning is that of the x86-64
  instruction set in Intel operand order (destination first): the stack holds 64-bit
  words, \<^verbatim>\<open>sub rbx, rax\<close> stores \<^verbatim>\<open>rbx - rax\<close> in \<^verbatim>\<open>rbx\<close>, \<^verbatim>\<open>push\<close> of an immediate takes a
  signed 32-bit value (other immediates are not modelled). \<^verbatim>\<open>call dump\<close> is modelled by
  its effect on the output: the value of \<^verbatim>\<open>rdi\<close> is recorded as printed, and \<^verbatim>\<open>rax\<close> and
  \<^verbatim>\<open>rdi\<close>, which the routine overwrites, become unknown (\<open>None\<close>).
\<close>

datatype reg = RAX | RBX | RDI

datatype instr =
    Comment string
  | Push_imm int
  | Push_reg reg
  | Pop reg
  | Add reg reg
  | Sub reg reg
  | Call_dump

fun reg_name :: "reg \<Rightarrow> string" where
  "reg_name RAX = ''rax''"
| "reg_name RBX = ''rbx''"
| "reg_name RDI = ''rdi''"

fun render :: "instr \<Rightarrow> string" where
  "render (Comment c) = ''    ;; -- '' @ c @ '' --\<newline>''"
| "render (Push_imm i) = ''    push '' @ str_int i @ ''\<newline>''"
| "render (Push_reg r) = ''    push '' @ reg_name r @ ''\<newline>''"
| "render (Pop r) = ''    pop '' @ reg_name r @ ''\<newline>''"
| "render (Add d s) = ''    add '' @ reg_name d @ '', '' @ reg_name s @ ''\<newline>''"
| "render (Sub d s) = ''    sub '' @ reg_name d @ '', '' @ reg_name s @ ''\<newline>''"
| "render Call_dump = ''    call dump\<newline>''"

definition asm_text :: "instr list \<Rightarrow> string" where
  "asm_text code = concat (map render code)"

record machine =
  rax :: "64 word option"
  rbx :: "64 word option"
  rdi :: "64 word option"
  stack :: "64 word list"
  dumped :: "64 word list"

fun get_reg :: "reg \<Rightarrow> machine \<Rightarrow> 64 word option" where
  "get_reg RAX m = rax m"
| "get_reg RBX m = rbx m"
| "get_reg RDI m = rdi m"

fun set_reg :: "reg \<Rightarrow> 64 word option \<Rightarrow> machine \<Rightarrow> machine" where
  "set_reg RAX v m = m\<lparr>rax := v\<rparr>"
| "set_reg RBX v m = m\<lparr>rbx := v\<rparr>"
| "set_reg RDI v m = m\<lparr>rdi := v\<rparr>"

fun step :: "instr \<Rightarrow> machine \<Rightarrow> machine option" where
  "step (Comment c) m = Some m"
| "step (Push_imm i) m =
     (if - (2 ^ 31) \<le> i \<and> i < 2 ^ 31 then Some (m\<lparr>stack := word_of_int i # stack m\<rparr>)
      else None)"
| "step (Push_reg r) m =
     (case get_reg r m of
        None \<Rightarrow> None
      | Some v \<Rightarrow> Some (m\<lparr>stack := v # stack m\<rparr>))"
| "step (Pop r) m =
     (case stack m of
        [] \<Rightarrow> None
      | v # rest \<Rightarrow> Some (set_reg r (Some v) (m\<lparr>stack := rest\<rparr>)))"
| "step (Add d s) m =
     (case get_reg d m of
        None \<Rightarrow> None
      | Some x \<Rightarrow> (case get_reg s m of
                     None \<Rightarrow> None
                   | Some y \<Rightarrow> Some (set_reg d (Some (x + y)) m)))"
| "step (Sub d s) m =
     (case get_reg d m of
        None \<Rightarrow> None
      | Some x \<Rightarrow> (case get_reg s m of
                     None \<Rightarrow> None
                   | Some y \<Rightarrow> Some (set_reg d (Some (x - y)) m)))"
| "step Call_dump m =
     (case rdi m of
        None \<Rightarrow> None
      | Some v \<Rightarrow> Some (m\<lparr>rax := None, rdi := None, dumped := dumped m @ [v]\<rparr>))"

fun exec :: "instr list \<Rightarrow> machine \<Rightarrow> machine option" where
  "exec [] m = Some m"
| "exec (i # code) m = (case step i m of None \<Rightarrow> None | Some m' \<Rightarrow> exec code m')"

definition start_state :: machine where
  "start_state = \<lparr>rax = None, rbx = None, rdi = None, stack = [], dumped = []\<rparr>"

section \<open>Notions used to state the properties\<close>

text \<open>
  \<open>is_run line i j\<close>: the characters at the offsets \<open>i\<close> up to \<open>j - 1\<close> of \<open>line\<close> are a
  maximal run of characters that are not white space: the run is not empty, no character
  in it is white space, and it cannot be extended to the left or to the right.
\<close>

definition is_run :: "string \<Rightarrow> nat \<Rightarrow> nat \<Rightarrow> bool" where
  "is_run line i j =
     (i < j \<and> j \<le> length line
      \<and> (\<forall>k \<in> {i..<j}. \<not> isspace (line ! k))
      \<and> (i = 0 \<or> isspace (line ! (i - 1)))
      \<and> (j = length line \<or> isspace (line ! j)))"

text \<open>The loop of \<open>lex_line\<close> always stands at the start of a run or at the end of the line.\<close>

definition at_run_start :: "string \<Rightarrow> nat \<Rightarrow> bool" where
  "at_run_start line col =
     (col \<le> length line \<and>
      (col < length line \<longrightarrow> \<not> isspace (line ! col) \<and> (col = 0 \<or> isspace (line ! (col - 1)))))"

text \<open>
  The operations of a program: \<^verbatim>\<open>(OP_PUSH_INT, i)\<close> with one integer operand, and
  \<^verbatim>\<open>(OP_PLUS,)\<close>, \<^verbatim>\<open>(OP_MINUS,)\<close>, \<^verbatim>\<open>(OP_DUMP,)\<close> with none.
\<close>

fun is_operation :: "pytuple \<Rightarrow> bool" where
  "is_operation [OpV OP_PUSH_INT, IntV i] = True"
| "is_operation [OpV OP_PLUS] = True"
| "is_operation [OpV OP_MINUS] = True"
| "is_operation [OpV OP_DUMP] = True"
| "is_operation _ = False"

text \<open>
  The operand of \<^verbatim>\<open>OP_PUSH_INT\<close> has no more digits than the limit allows, so that \<^verbatim>\<open>%d\<close>
  formats it. Every 64-bit integer is such an operand, whatever the limit.
\<close>

definition int_fits :: "nat \<Rightarrow> int \<Rightarrow> bool" where
  "int_fits maxd i =
     (let n = length (str_nat (nat \<bar>i\<bar>)) in \<not> (640 < n \<and> 0 < maxd \<and> maxd < n))"

fun operand_fits :: "nat \<Rightarrow> pytuple \<Rightarrow> bool" where
  "operand_fits maxd [OpV OP_PUSH_INT, IntV i] = int_fits maxd i"
| "operand_fits maxd _ = True"

text \<open>The instruction template of each operation.\<close>

fun lower :: "pytuple \<Rightarrow> instr list" where
  "lower [OpV OP_PUSH_INT, IntV i] = [Comment (''push '' @ str_int i), Push_imm i]"
| "lower [OpV OP_PLUS] = [Comment ''add'', Pop RAX, Pop RBX, Add RAX RBX, Push_reg RAX]"
| "lower [OpV OP_MINUS] = [Comment ''sub'', Pop RAX, Pop RBX, Sub RBX RAX, Push_reg RBX]"
| "lower [OpV OP_DUMP] = [Comment ''dump'', Pop RDI, Call_dump]"
| "lower _ = []"

text \<open>The line that \<open>parse_file\<close> prints for a token that is not recognised.\<close>

definition diagnostic :: "string \<Rightarrow> nat \<Rightarrow> nat \<Rightarrow> string \<Rightarrow> string" where
  "diagnostic file row col text =
     ''Error at '' @ file @ '':'' @ str_int (int row + 1) @ '':'' @ str_int (int col + 1)
       @ '': Invalid token '' @ text"

text \<open>The pipeline of \<open>main\<close>: \<open>parse_file\<close> followed by \<open>compile_ops\<close>.\<close>

definition pipeline :: "nat \<Rightarrow> (string \<Rightarrow> error + string list) \<Rightarrow> string \<Rightarrow> error + string" where
  "pipeline maxd fs file =
     (case parse_file maxd fs file of
        Inl e \<Rightarrow> Inl e
      | Inr (printed, ops) \<Rightarrow> compile_ops maxd ops)"

text \<open>
  Integer literals. The specification words them as an optional leading \<^verbatim>\<open>-\<close> followed by
  digits only:
\<close>

definition spec_integer_text :: "string \<Rightarrow> bool" where
  "spec_integer_text t =
     (case t of
        [] \<Rightarrow> False
      | c # r \<Rightarrow> if c = CHR ''-'' then r \<noteq> [] \<and> list_all is_digit r else list_all is_digit t)"

text \<open>
  What \<open>py_int\<close> accepts is wider. With the white space that it skips removed on both
  sides and one leading sign \<^verbatim>\<open>+\<close> or \<^verbatim>\<open>-\<close> removed, the body that is left must be made of
  digits and underscores, begin and end with a digit and hold no two underscores in a row.
\<close>

definition lstrip :: "string \<Rightarrow> string" where
  "lstrip t = dropWhile int_space t"

definition rstrip :: "string \<Rightarrow> string" where
  "rstrip t = rev (dropWhile int_space (rev t))"

definition after_sign :: "string \<Rightarrow> string" where
  "after_sign t =
     (case t of
        [] \<Rightarrow> []
      | c # r \<Rightarrow> if c = CHR ''+'' \<or> c = CHR ''-'' then r else t)"

definition literal_negative :: "string \<Rightarrow> bool" where
  "literal_negative t = (case lstrip t of [] \<Rightarrow> False | c # r \<Rightarrow> c = CHR ''-'')"

definition literal_body :: "string \<Rightarrow> string" where
  "literal_body t = rstrip (after_sign (lstrip t))"

definition digit_or_underscore :: "char \<Rightarrow> bool" where
  "digit_or_underscore c = (is_digit c \<or> c = CHR ''_'')"

fun no_double_underscore :: "string \<Rightarrow> bool" where
  "no_double_underscore (c # d # r) =
     (\<not> (c = CHR ''_'' \<and> d = CHR ''_'') \<and> no_double_underscore (d # r))"
| "no_double_underscore _ = True"

definition digit_groups :: "string \<Rightarrow> bool" where
  "digit_groups b =
     (b \<noteq> [] \<and> is_digit (hd b) \<and> is_digit (last b) \<and> list_all digit_or_underscore b
      \<and> no_double_underscore b)"

text \<open>The number that a string of digits denotes in base 10, and the value of a literal.\<close>

fun decimal :: "string \<Rightarrow> nat" where
  "decimal [] = 0"
| "decimal (c # cs) = digit_val c * 10 ^ length cs + decimal cs"

definition literal_digits :: "string \<Rightarrow> string" where
  "literal_digits t = filter is_digit (literal_body t)"

definition literal_value :: "string \<Rightarrow> int" where
  "literal_value t =
     (if literal_negative t then - int (decimal (literal_digits t))
      else int (decimal (literal_digits t)))"

text \<open>
  The limit on the number of digits: a text with more than \<open>maxd\<close> digits is refused when
  \<open>maxd\<close> is not 0 and the text has more than 640 digits.
\<close>

definition within_digit_limit :: "nat \<Rightarrow> nat \<Rightarrow> bool" where
  "within_digit_limit maxd n = (\<not> (640 < n \<and> 0 < maxd \<and> maxd < n))"

definition integer_literal :: "nat \<Rightarrow> string \<Rightarrow> bool" where
  "integer_literal maxd t =
     (digit_groups (literal_body t) \<and> within_digit_limit maxd (length (literal_digits t)))"

text \<open>The values of a 64-bit signed integer.\<close>

definition int64_representable :: "int \<Rightarrow> bool" where
  "int64_representable v = (- (2 ^ 63) \<le> v \<and> v < 2 ^ 63)"

section \<open>Properties of the scanner\<close>

lemma lex_line_loop_unfold:
  "col < length line \<Longrightarrow>
   lex_line_loop line col =
     (col, slice line col (find_col line col isspace))
     # lex_line_loop line (find_col line (find_col line col isspace) (\<lambda>x. \<not> isspace x))"
  by (subst lex_line_loop.simps) (simp add: Let_def)

lemma lex_line_loop_end: "\<not> col < length line \<Longrightarrow> lex_line_loop line col = []"
  by (subst lex_line_loop.simps) simp

lemma first_run:
  assumes "at_run_start line col" "col < length line"
  shows "is_run line col (find_col line col isspace)"
proof -
  let ?ce = "find_col line col isspace"
  from assms have ns: "\<not> isspace (line ! col)" and pre: "col = 0 \<or> isspace (line ! (col - 1))"
    by (auto simp: at_run_start_def)
  from assms(2) ns have "?ce = find_col line (col + 1) isspace" by (simp add: find_col_step)
  moreover have "col + 1 \<le> find_col line (col + 1) isspace" by (rule find_col_ge)
  ultimately have lt: "col < ?ce" by simp
  from assms(2) have le: "?ce \<le> length line" by (simp add: find_col_le)
  have mid: "\<forall>k \<in> {col..<?ce}. \<not> isspace (line ! k)"
    using find_col_skipped [of col _ line isspace] by auto
  have stop: "?ce = length line \<or> isspace (line ! ?ce)"
  proof (cases "?ce < length line")
    case True
    then show ?thesis by (simp add: find_col_stop)
  next
    case False
    with le show ?thesis by simp
  qed
  from lt le mid pre stop show ?thesis by (simp add: is_run_def)
qed

lemma next_start:
  assumes "is_run line col ce"
  shows "at_run_start line (find_col line ce (\<lambda>x. \<not> isspace x))"
    and "ce \<le> find_col line ce (\<lambda>x. \<not> isspace x)"
    and "\<forall>k. ce \<le> k \<and> k < find_col line ce (\<lambda>x. \<not> isspace x) \<longrightarrow> isspace (line ! k)"
proof -
  let ?nc = "find_col line ce (\<lambda>x. \<not> isspace x)"
  from assms have le: "ce \<le> length line" and stop: "ce = length line \<or> isspace (line ! ce)"
    by (auto simp: is_run_def)
  show ge: "ce \<le> ?nc" by (rule find_col_ge)
  show sk: "\<forall>k. ce \<le> k \<and> k < ?nc \<longrightarrow> isspace (line ! k)"
    using find_col_skipped [of ce _ line "\<lambda>x. \<not> isspace x"] by auto
  from le have nle: "?nc \<le> length line" by (rule find_col_le)
  have "?nc < length line \<longrightarrow> \<not> isspace (line ! ?nc) \<and> (?nc = 0 \<or> isspace (line ! (?nc - 1)))"
  proof
    assume lt: "?nc < length line"
    then have ns: "\<not> isspace (line ! ?nc)"
      using find_col_stop [of line ce "\<lambda>x. \<not> isspace x"] by simp
    from lt ge have "ce < length line" by simp
    with stop have "isspace (line ! ce)" by simp
    with ns ge have "ce < ?nc" by (cases "ce = ?nc") auto
    then have "ce \<le> ?nc - 1 \<and> ?nc - 1 < ?nc" by simp
    with sk have "isspace (line ! (?nc - 1))" by blast
    with ns show "\<not> isspace (line ! ?nc) \<and> (?nc = 0 \<or> isspace (line ! (?nc - 1)))" by simp
  qed
  with nle show "at_run_start line ?nc" by (simp add: at_run_start_def)
qed

lemma run_after:
  assumes r: "is_run line col ce" and r': "is_run line i j" and "col \<le> i"
  shows "(i = col \<and> j = ce) \<or> find_col line ce (\<lambda>x. \<not> isspace x) \<le> i"
proof -
  let ?nc = "find_col line ce (\<lambda>x. \<not> isspace x)"
  from r' have ij: "i < j" "j \<le> length line" and ins: "\<not> isspace (line ! i)"
    by (auto simp: is_run_def)
  consider "i = col" | "col < i" "i < ce" | "ce \<le> i" "i < ?nc" | "?nc \<le> i"
    using \<open>col \<le> i\<close> by linarith
  then show ?thesis
  proof cases
    case 1
    have "j = ce"
    proof (rule ccontr)
      assume "j \<noteq> ce"
      then consider "j < ce" | "ce < j" by linarith
      then show False
      proof cases
        case 1
        moreover from r have "ce \<le> length line" by (simp add: is_run_def)
        ultimately have "j < length line" by simp
        with r' have "isspace (line ! j)" by (auto simp: is_run_def)
        moreover from 1 \<open>i = col\<close> ij have "j \<in> {col..<ce}" by simp
        with r have "\<not> isspace (line ! j)" by (simp add: is_run_def)
        ultimately show False by simp
      next
        case 2
        with ij have "ce < length line" by simp
        with r have "isspace (line ! ce)" by (auto simp: is_run_def)
        moreover from r have "col < ce" by (simp add: is_run_def)
        with 2 \<open>i = col\<close> have "ce \<in> {i..<j}" by simp
        with r' have "\<not> isspace (line ! ce)" by (simp add: is_run_def)
        ultimately show False by simp
      qed
    qed
    with 1 show ?thesis by simp
  next
    case 2
    with r' have "isspace (line ! (i - 1))" by (auto simp: is_run_def)
    moreover from 2 have "i - 1 \<in> {col..<ce}" by auto
    with r have "\<not> isspace (line ! (i - 1))" by (simp add: is_run_def)
    ultimately show ?thesis by simp
  next
    case 3
    with next_start(3) [OF r] have "isspace (line ! i)" by blast
    with ins show ?thesis by simp
  next
    case 4
    then show ?thesis by simp
  qed
qed

lemma lex_line_loop_runs:
  "at_run_start line col \<Longrightarrow>
   set (lex_line_loop line col) = {(i, slice line i j) | i j. is_run line i j \<and> col \<le> i}
   \<and> sorted_wrt (\<lambda>a b. fst a < fst b) (lex_line_loop line col)"
proof (induction line col rule: lex_line_loop.induct)
  case (1 line col)
  show ?case
  proof (cases "col < length line")
    case False
    then have "lex_line_loop line col = []" by (rule lex_line_loop_end)
    moreover from False have "\<And>i j. is_run line i j \<Longrightarrow> \<not> col \<le> i"
      by (auto simp: is_run_def)
    ultimately show ?thesis by auto
  next
    case True
    let ?ce = "find_col line col isspace"
    let ?nc = "find_col line ?ce (\<lambda>x. \<not> isspace x)"
    from "1.prems" True have r: "is_run line col ?ce" by (rule first_run)
    have st: "at_run_start line ?nc" by (rule next_start(1) [OF r])
    from "1.IH" [OF True refl st]
    have IH: "set (lex_line_loop line ?nc) = {(i, slice line i j) | i j. is_run line i j \<and> ?nc \<le> i}"
      and IHs: "sorted_wrt (\<lambda>a b. fst a < fst b) (lex_line_loop line ?nc)"
      by simp_all
    from True have unf: "lex_line_loop line col = (col, slice line col ?ce) # lex_line_loop line ?nc"
      by (rule lex_line_loop_unfold)
    have lt: "col < ?nc" using True by (rule find_col_progress)
    have "{(i, slice line i j) | i j. is_run line i j \<and> col \<le> i}
        = insert (col, slice line col ?ce) {(i, slice line i j) | i j. is_run line i j \<and> ?nc \<le> i}"
      (is "?L = insert ?x ?R")
    proof
      show "?L \<subseteq> insert ?x ?R"
        using run_after [OF r] by blast
      show "insert ?x ?R \<subseteq> ?L"
        using r lt by auto
    qed
    with IH unf have "set (lex_line_loop line col) = ?L" by simp
    moreover from IH lt have "\<forall>y \<in> set (lex_line_loop line ?nc). col < fst y" by auto
    with IHs unf have "sorted_wrt (\<lambda>a b. fst a < fst b) (lex_line_loop line col)" by simp
    ultimately show ?thesis by simp
  qed
qed

lemma start_of_line:
  shows "at_run_start line (find_col line 0 (\<lambda>x. \<not> isspace x))"
  and "\<forall>k < find_col line 0 (\<lambda>x. \<not> isspace x). isspace (line ! k)"
proof -
  let ?c = "find_col line 0 (\<lambda>x. \<not> isspace x)"
  show sk: "\<forall>k < ?c. isspace (line ! k)"
    using find_col_skipped [of 0 _ line "\<lambda>x. \<not> isspace x"] by auto
  have le: "?c \<le> length line" by (simp add: find_col_le)
  have "?c < length line \<longrightarrow> \<not> isspace (line ! ?c) \<and> (?c = 0 \<or> isspace (line ! (?c - 1)))"
  proof
    assume "?c < length line"
    then have "\<not> isspace (line ! ?c)"
      using find_col_stop [of line 0 "\<lambda>x. \<not> isspace x"] by simp
    moreover have "?c = 0 \<or> isspace (line ! (?c - 1))"
      using sk by (cases "?c = 0") auto
    ultimately show "\<not> isspace (line ! ?c) \<and> (?c = 0 \<or> isspace (line ! (?c - 1)))" by simp
  qed
  with le show "at_run_start line ?c" by (simp add: at_run_start_def)
qed

lemma in_set_slice:
  assumes "ch \<in> set (slice line i j)"
  shows "\<exists>k. i \<le> k \<and> k < j \<and> k < length line \<and> ch = line ! k"
proof -
  from assms obtain n where n: "n < length (slice line i j)" and ch: "ch = slice line i j ! n"
    by (auto simp: in_set_conv_nth)
  from n have "n < j - i" and "i + n < length line" by (auto simp: slice_def)
  moreover from this ch have "ch = line ! (i + n)" by (simp add: slice_def)
  ultimately show ?thesis by (intro exI [of _ "i + n"]) auto
qed

lemma lex_line_runs:
  "set (lex_line line) = {(i, slice line i j) | i j. is_run line i j}"
proof -
  let ?c = "find_col line 0 (\<lambda>x. \<not> isspace x)"
  have before: "?c \<le> i" if r: "is_run line i j" for i j
  proof (rule ccontr)
    assume "\<not> ?c \<le> i"
    then have "isspace (line ! i)" using start_of_line(2) [of line] by simp
    moreover from r have "\<not> isspace (line ! i)" by (auto simp: is_run_def)
    ultimately show False by simp
  qed
  from lex_line_loop_runs [OF start_of_line(1), of line]
  have "set (lex_line line) = {(i, slice line i j) | i j. is_run line i j \<and> ?c \<le> i}"
    by (simp add: lex_line_def)
  moreover have "(is_run line i j \<and> ?c \<le> i) = is_run line i j" for i j
    using before [of i j] by blast
  ultimately show ?thesis by (simp only:)
qed

lemma lex_line_sorted: "sorted_wrt (\<lambda>a b. fst a < fst b) (lex_line line)"
  using lex_line_loop_runs [OF start_of_line(1), of line] by (simp add: lex_line_def)

lemma lex_line_blank:
  assumes "\<forall>c \<in> set line. isspace c"
  shows "lex_line line = []"
proof -
  have "\<not> is_run line i j" for i j
  proof
    assume r: "is_run line i j"
    then have "i < length line" and "\<not> isspace (line ! i)" by (auto simp: is_run_def)
    moreover from this(1) have "line ! i \<in> set line" by simp
    ultimately show False using assms by blast
  qed
  then have "set (lex_line line) = {}" by (simp add: lex_line_runs)
  then show ?thesis by simp
qed

lemma lex_line_no_space:
  assumes "(c, t) \<in> set (lex_line line)" and "ch \<in> set t"
  shows "\<not> isspace ch"
proof -
  from assms(1) obtain j where r: "is_run line c j" and t: "t = slice line c j"
    by (auto simp: lex_line_runs)
  from assms(2) t have "ch \<in> set (slice line c j)" by simp
  from in_set_slice [OF this] obtain k where "c \<le> k" "k < j" "ch = line ! k"
    by blast
  with r show ?thesis by (simp add: is_run_def)
qed

section \<open>Properties of the conversion of text to integers\<close>

lemma digit_not_underscore: "is_digit c \<Longrightarrow> c \<noteq> CHR ''_''"
  by (auto simp: is_digit_def)

lemma digit_not_space: "is_digit c \<Longrightarrow> \<not> int_space c"
  by (auto simp: is_digit_def int_space_def Let_def)

lemma space_not_digit_or_underscore: "int_space c \<Longrightarrow> \<not> digit_or_underscore c"
  by (auto simp: digit_or_underscore_def is_digit_def int_space_def Let_def)

lemma no_double_underscore_Cons:
  "no_double_underscore (p # b) =
     ((b \<noteq> [] \<longrightarrow> \<not> (p = CHR ''_'' \<and> hd b = CHR ''_'')) \<and> no_double_underscore b)"
  by (cases b) auto

lemma scan_digits_spec:
  "scan_digits cs prev d acc =
     (if no_double_underscore (prev # takeWhile digit_or_underscore cs)
         \<and> last (prev # takeWhile digit_or_underscore cs) \<noteq> CHR ''_''
      then Some (d + length (filter is_digit (takeWhile digit_or_underscore cs)),
                 acc * 10 ^ length (filter is_digit (takeWhile digit_or_underscore cs))
                   + int (decimal (filter is_digit (takeWhile digit_or_underscore cs))),
                 dropWhile digit_or_underscore cs)
      else None)"
proof (induction cs arbitrary: prev d acc)
  case Nil
  show ?case by simp
next
  case (Cons c cs)
  let ?b = "takeWhile digit_or_underscore cs"
  consider (us) "c = CHR ''_''" | (dig) "is_digit c" | (other) "\<not> digit_or_underscore c"
    by (auto simp: digit_or_underscore_def)
  then show ?case
  proof cases
    case us
    then have dou: "digit_or_underscore c" and nd: "\<not> is_digit c"
      using digit_not_underscore by (auto simp: digit_or_underscore_def)
    show ?thesis
    proof (cases "prev = CHR ''_''")
      case True
      with us dou show ?thesis by simp
    next
      case False
      with us dou nd show ?thesis by (simp add: Cons.IH)
    qed
  next
    case dig
    then have dou: "digit_or_underscore c" and nu: "c \<noteq> CHR ''_''"
      using digit_not_underscore by (auto simp: digit_or_underscore_def)
    from dig dou nu show ?thesis
      by (simp add: Cons.IH no_double_underscore_Cons algebra_simps)
  next
    case other
    then have "c \<noteq> CHR ''_''" and "\<not> is_digit c" by (auto simp: digit_or_underscore_def)
    with other show ?thesis by simp
  qed
qed

lemma rstrip_append_space:
  assumes "list_all int_space ys" and "xs \<noteq> []" and "\<not> int_space (last xs)"
  shows "rstrip (xs @ ys) = xs"
proof -
  from assms(1) have "dropWhile int_space (rev ys @ rev xs) = dropWhile int_space (rev xs)"
    by (intro dropWhile_append2) (simp add: list_all_iff)
  moreover from assms(2,3) have "dropWhile int_space (rev xs) = rev xs"
    by (cases xs rule: rev_cases) auto
  ultimately show ?thesis by (simp add: rstrip_def)
qed

lemma rstrip_decomp:
  "\<exists>trail. s = rstrip s @ trail \<and> list_all int_space trail"
proof (intro exI conjI)
  have "rstrip s @ rev (takeWhile int_space (rev s))
      = rev (takeWhile int_space (rev s) @ dropWhile int_space (rev s))"
    by (simp only: rstrip_def rev_append)
  also have "\<dots> = s" by (simp only: takeWhile_dropWhile_id rev_rev_ident)
  finally show "s = rstrip s @ rev (takeWhile int_space (rev s))" by (rule sym)
  show "list_all int_space (rev (takeWhile int_space (rev s)))"
    by (auto simp: list_all_iff dest: set_takeWhileD)
qed

lemma takeWhile_body_trail:
  assumes "list_all digit_or_underscore body" and "list_all int_space trail"
  shows "takeWhile digit_or_underscore (body @ trail) = body"
    and "dropWhile digit_or_underscore (body @ trail) = trail"
proof -
  from assms(2) have t: "takeWhile digit_or_underscore trail = []"
    by (cases trail) (auto simp: space_not_digit_or_underscore)
  from assms(1) have "takeWhile digit_or_underscore (body @ trail)
      = body @ takeWhile digit_or_underscore trail"
    by (intro takeWhile_append2) (simp add: list_all_iff)
  with t show "takeWhile digit_or_underscore (body @ trail) = body" by simp
  from assms(2) have d: "dropWhile digit_or_underscore trail = trail"
    by (cases trail) (auto simp: space_not_digit_or_underscore)
  from assms(1) have "dropWhile digit_or_underscore (body @ trail)
      = dropWhile digit_or_underscore trail"
    by (intro dropWhile_append2) (simp add: list_all_iff)
  with d show "dropWhile digit_or_underscore (body @ trail) = trail" by simp
qed

text \<open>What the scan accepts, in terms of the text \<open>s2\<close> after the sign.\<close>

lemma accepted_iff_digit_groups:
  "(takeWhile digit_or_underscore s2 \<noteq> []
      \<and> \<not> (s2 \<noteq> [] \<and> hd s2 = CHR ''_'')
      \<and> no_double_underscore (takeWhile digit_or_underscore s2)
      \<and> last (takeWhile digit_or_underscore s2) \<noteq> CHR ''_''
      \<and> dropWhile int_space (dropWhile digit_or_underscore s2) = [])
   = digit_groups (rstrip s2)"
  (is "?A = ?B")
proof
  let ?b = "takeWhile digit_or_underscore s2"
  let ?rest = "dropWhile digit_or_underscore s2"
  assume a: ?A
  then have ne: "?b \<noteq> []" by simp
  have all: "list_all digit_or_underscore ?b"
    by (auto simp: list_all_iff dest: set_takeWhileD)
  from ne have hd: "hd ?b = hd s2" by (cases s2) (auto split: if_splits)
  from ne have s2ne: "s2 \<noteq> []" by auto
  from ne all have "digit_or_underscore (hd ?b)" by (cases ?b) auto
  with a hd s2ne have dh: "is_digit (hd ?b)" by (auto simp: digit_or_underscore_def)
  from ne all have "digit_or_underscore (last ?b)"
    by (cases ?b rule: rev_cases) auto
  with a have dl: "is_digit (last ?b)" by (auto simp: digit_or_underscore_def)
  from a have sp: "list_all int_space ?rest"
    by (auto simp: list_all_iff)
  have "s2 = ?b @ ?rest" by simp
  then have "rstrip s2 = rstrip (?b @ ?rest)" by simp
  also from sp ne dl have "\<dots> = ?b" by (intro rstrip_append_space) (auto dest: digit_not_space)
  finally have "rstrip s2 = ?b" .
  with ne dh dl all a show ?B by (simp add: digit_groups_def)
next
  let ?body = "rstrip s2"
  assume b: ?B
  obtain trail where s2: "s2 = ?body @ trail" and sp: "list_all int_space trail"
    using rstrip_decomp by blast
  from b have all: "list_all digit_or_underscore ?body" and ne: "?body \<noteq> []"
    and dh: "is_digit (hd ?body)" and dl: "is_digit (last ?body)"
    and nd: "no_double_underscore ?body"
    by (simp_all add: digit_groups_def)
  from takeWhile_body_trail [OF all sp] s2
  have tw: "takeWhile digit_or_underscore s2 = ?body"
    and dw: "dropWhile digit_or_underscore s2 = trail"
    by simp_all
  from s2 ne have "hd s2 = hd ?body" by (metis hd_append2)
  with dh have "hd s2 \<noteq> CHR ''_''" by (auto dest: digit_not_underscore)
  moreover from dl have "last ?body \<noteq> CHR ''_''" by (auto dest: digit_not_underscore)
  moreover from sp have "dropWhile int_space trail = []"
    by (auto simp: list_all_iff)
  ultimately show ?A using tw dw ne nd by simp
qed

lemma accepted_body:
  assumes "digit_groups (rstrip s2)"
  shows "takeWhile digit_or_underscore s2 = rstrip s2"
proof -
  obtain trail where s2: "s2 = rstrip s2 @ trail" and sp: "list_all int_space trail"
    using rstrip_decomp by blast
  from assms have "list_all digit_or_underscore (rstrip s2)" by (simp add: digit_groups_def)
  from takeWhile_body_trail(1) [OF this sp] s2 show ?thesis by simp
qed

lemma py_int_after_sign:
  assumes nl: "\<not> (s2 \<noteq> [] \<and> hd s2 = CHR ''_'')"
  shows "(case scan_digits s2 (CHR 0x00) 0 0 of
      None \<Rightarrow> None
    | Some (digits, v, rest) \<Rightarrow>
        if length rest = length s2 then None
        else if dropWhile int_space rest \<noteq> [] then None
        else if 640 < digits \<and> 0 < maxd \<and> maxd < digits then None
        else Some (sign * v))
   = (if digit_groups (rstrip s2)
          \<and> within_digit_limit maxd (length (filter is_digit (rstrip s2)))
      then Some (sign * int (decimal (filter is_digit (rstrip s2))))
      else None)"
proof -
  let ?b = "takeWhile digit_or_underscore s2"
  let ?rest = "dropWhile digit_or_underscore s2"
  have len: "(length ?rest = length s2) = (?b = [])"
  proof -
    have "length s2 = length ?b + length ?rest"
      by (metis length_append takeWhile_dropWhile_id)
    then show ?thesis by auto
  qed
  have nul: "no_double_underscore (CHR 0x00 # ?b) = no_double_underscore ?b"
    by (simp add: no_double_underscore_Cons)
  show ?thesis
  proof (cases "digit_groups (rstrip s2)")
    case True
    with nl have acc: "?b \<noteq> [] \<and> no_double_underscore ?b \<and> last ?b \<noteq> CHR ''_''
        \<and> dropWhile int_space ?rest = []"
      using accepted_iff_digit_groups [of s2] by blast
    from True have body: "?b = rstrip s2" by (rule accepted_body)
    from acc have "scan_digits s2 (CHR 0x00) 0 0
        = Some (length (filter is_digit ?b), int (decimal (filter is_digit ?b)), ?rest)"
      by (simp add: scan_digits_spec nul)
    with acc len True show ?thesis
      by (simp add: body [symmetric] within_digit_limit_def)
  next
    case nodg: False
    with nl have nacc: "\<not> (?b \<noteq> [] \<and> no_double_underscore ?b \<and> last ?b \<noteq> CHR ''_''
        \<and> dropWhile int_space ?rest = [])"
      using accepted_iff_digit_groups [of s2] by blast
    show ?thesis
    proof (cases "?b = []")
      case True
      then have "scan_digits s2 (CHR 0x00) 0 0 = Some (0, 0, ?rest)"
        by (simp add: scan_digits_spec)
      with True len nodg show ?thesis by simp
    next
      case bne: False
      show ?thesis
      proof (cases "no_double_underscore ?b \<and> last ?b \<noteq> CHR ''_''")
        case True
        with bne have "scan_digits s2 (CHR 0x00) 0 0
            = Some (length (filter is_digit ?b), int (decimal (filter is_digit ?b)), ?rest)"
          by (simp add: scan_digits_spec nul)
        moreover from True bne nacc have "dropWhile int_space ?rest \<noteq> []" by simp
        ultimately show ?thesis using nodg len bne by simp
      next
        case False
        with bne have "scan_digits s2 (CHR 0x00) 0 0 = None"
          by (auto simp: scan_digits_spec nul)
        with nodg show ?thesis by simp
      qed
    qed
  qed
qed

lemma leading_underscore_no_groups:
  assumes "s2 \<noteq> []" and "hd s2 = CHR ''_''"
  shows "\<not> digit_groups (rstrip s2)"
proof
  assume dg: "digit_groups (rstrip s2)"
  obtain trail where s2: "s2 = rstrip s2 @ trail" using rstrip_decomp by blast
  from dg have ne: "rstrip s2 \<noteq> []" and d: "is_digit (hd (rstrip s2))"
    by (simp_all add: digit_groups_def)
  from s2 ne have "hd s2 = hd (rstrip s2)" by (metis hd_append2)
  with d assms(2) show False by (auto dest: digit_not_underscore)
qed

lemma py_int_from_sign:
  "(if s2 \<noteq> [] \<and> hd s2 = CHR ''_'' then None
    else (case scan_digits s2 (CHR 0x00) 0 0 of
            None \<Rightarrow> None
          | Some (digits, v, rest) \<Rightarrow>
              if length rest = length s2 then None
              else if dropWhile int_space rest \<noteq> [] then None
              else if 640 < digits \<and> 0 < maxd \<and> maxd < digits then None
              else Some (sign * v)))
   = (if digit_groups (rstrip s2)
          \<and> within_digit_limit maxd (length (filter is_digit (rstrip s2)))
      then Some (sign * int (decimal (filter is_digit (rstrip s2))))
      else None)"
proof (cases "s2 \<noteq> [] \<and> hd s2 = CHR ''_''")
  case True
  then have "\<not> digit_groups (rstrip s2)" by (simp add: leading_underscore_no_groups)
  with True show ?thesis by simp
next
  case False
  then have "(if s2 \<noteq> [] \<and> hd s2 = CHR ''_'' then None
    else (case scan_digits s2 (CHR 0x00) 0 0 of
            None \<Rightarrow> None
          | Some (digits, v, rest) \<Rightarrow>
              if length rest = length s2 then None
              else if dropWhile int_space rest \<noteq> [] then None
              else if 640 < digits \<and> 0 < maxd \<and> maxd < digits then None
              else Some (sign * v)))
    = (case scan_digits s2 (CHR 0x00) 0 0 of
            None \<Rightarrow> None
          | Some (digits, v, rest) \<Rightarrow>
              if length rest = length s2 then None
              else if dropWhile int_space rest \<noteq> [] then None
              else if 640 < digits \<and> 0 < maxd \<and> maxd < digits then None
              else Some (sign * v))"
    by (rule if_not_P)
  also from False have "\<dots> = (if digit_groups (rstrip s2)
          \<and> within_digit_limit maxd (length (filter is_digit (rstrip s2)))
      then Some (sign * int (decimal (filter is_digit (rstrip s2))))
      else None)"
    by (rule py_int_after_sign)
  finally show ?thesis .
qed

lemma py_int_spec:
  "py_int maxd t = (if integer_literal maxd t then Some (literal_value t) else None)"
proof -
  let ?s1 = "lstrip t"
  let ?s2 = "after_sign ?s1"
  let ?sign = "if literal_negative t then - 1 else (1::int)"
  have split: "(case ?s1 of
                  [] \<Rightarrow> (1, [])
                | c # r \<Rightarrow> if c = CHR ''+'' then (1, r)
                           else if c = CHR ''-'' then (- 1, r)
                           else (1, ?s1)) = (?sign, ?s2)"
    by (cases ?s1) (auto simp: after_sign_def literal_negative_def)
  have "py_int maxd t =
     (if ?s2 \<noteq> [] \<and> hd ?s2 = CHR ''_'' then None
      else (case scan_digits ?s2 (CHR 0x00) 0 0 of
            None \<Rightarrow> None
          | Some (digits, v, rest) \<Rightarrow>
              if length rest = length ?s2 then None
              else if dropWhile int_space rest \<noteq> [] then None
              else if 640 < digits \<and> 0 < maxd \<and> maxd < digits then None
              else Some (?sign * v)))"
    unfolding py_int_def Let_def lstrip_def [symmetric] split by simp
  also have "\<dots> = (if digit_groups (rstrip ?s2)
          \<and> within_digit_limit maxd (length (filter is_digit (rstrip ?s2)))
      then Some (?sign * int (decimal (filter is_digit (rstrip ?s2))))
      else None)"
    by (rule py_int_from_sign)
  also have "\<dots> = (if integer_literal maxd t then Some (literal_value t) else None)"
    by (simp add: integer_literal_def literal_value_def literal_digits_def literal_body_def)
  finally show ?thesis .
qed

lemma decimal_bound: "list_all is_digit ds \<Longrightarrow> decimal ds < 10 ^ length ds"
proof (induction ds)
  case Nil
  show ?case by simp
next
  case (Cons c ds)
  then have "digit_val c \<le> 9" and IH: "decimal ds < 10 ^ length ds"
    by (auto simp: is_digit_def digit_val_def Let_def)
  then have "digit_val c * 10 ^ length ds \<le> 9 * 10 ^ length ds" by simp
  from this IH have "digit_val c * 10 ^ length ds + decimal ds < 9 * 10 ^ length ds + 10 ^ length ds"
    by (rule add_le_less_mono)
  then show ?case by simp
qed

lemma filter_rstrip_le: "length (filter P (rstrip s)) \<le> length (filter P s)"
proof -
  obtain trail where "s = rstrip s @ trail" using rstrip_decomp by blast
  then have "filter P s = filter P (rstrip s) @ filter P trail" by (metis filter_append)
  then show ?thesis by simp
qed

lemma filter_after_sign_le: "length (filter P (after_sign s)) \<le> length (filter P s)"
  by (cases s) (auto simp: after_sign_def)

lemma filter_lstrip_le: "length (filter P (lstrip s)) \<le> length (filter P s)"
proof -
  have "filter P s = filter P (takeWhile int_space s) @ filter P (lstrip s)"
    unfolding lstrip_def by (metis filter_append takeWhile_dropWhile_id)
  then show ?thesis by simp
qed

lemma literal_digits_le: "length (literal_digits t) \<le> length (filter is_digit t)"
proof -
  have "length (literal_digits t) \<le> length (filter is_digit (after_sign (lstrip t)))"
    by (simp add: literal_digits_def literal_body_def filter_rstrip_le)
  also have "\<dots> \<le> length (filter is_digit (lstrip t))" by (rule filter_after_sign_le)
  also have "\<dots> \<le> length (filter is_digit t)" by (rule filter_lstrip_le)
  finally show ?thesis .
qed

lemma literal_value_bound: "\<bar>literal_value t\<bar> < 10 ^ length (filter is_digit t)"
proof -
  have "list_all is_digit (literal_digits t)" by (simp add: literal_digits_def list_all_iff)
  then have "decimal (literal_digits t) < 10 ^ length (literal_digits t)" by (rule decimal_bound)
  also have "(10::nat) ^ length (literal_digits t) \<le> 10 ^ length (filter is_digit t)"
    by (intro power_increasing literal_digits_le) simp
  finally have "int (decimal (literal_digits t)) < int (10 ^ length (filter is_digit t))"
    by (simp only: of_nat_less_iff)
  then show ?thesis by (simp add: literal_value_def)
qed

section \<open>Properties of the code generator and of the parser's output\<close>

lemma is_operation_cases:
  assumes "is_operation t"
  obtains (push) i where "t = [OpV OP_PUSH_INT, IntV i]"
    | (plus) "t = [OpV OP_PLUS]"
    | (minus) "t = [OpV OP_MINUS]"
    | (dump) "t = [OpV OP_DUMP]"
  using assms by (rule is_operation.elims) auto

lemma asm_text_append: "asm_text (xs @ ys) = asm_text xs @ asm_text ys"
  by (simp add: asm_text_def)

lemma asm_text_concat: "asm_text (concat xss) = concat (map asm_text xss)"
  by (induction xss) (simp_all add: asm_text_append, simp add: asm_text_def)

lemma int_to_str_fits: "int_fits maxd i \<Longrightarrow> int_to_str maxd i = Inr (str_int i)"
  by (simp add: int_fits_def int_to_str_def Let_def)

lemma compile_loop_step:
  assumes "is_operation t" and "operand_fits maxd t"
  shows "compile_loop maxd (t # ops) out = compile_loop maxd ops (out @ asm_text (lower t))"
  using assms by (cases rule: is_operation_cases) (simp_all add: asm_text_def int_to_str_fits)

lemma compile_loop_append:
  "list_all is_operation pre \<Longrightarrow> list_all (operand_fits maxd) pre \<Longrightarrow>
   compile_loop maxd (pre @ ops) out
     = compile_loop maxd ops (out @ asm_text (concat (map lower pre)))"
proof (induction pre arbitrary: out)
  case Nil
  show ?case by (simp add: asm_text_def)
next
  case (Cons t pre)
  then have "is_operation t" and "operand_fits maxd t"
    and "list_all is_operation pre" and "list_all (operand_fits maxd) pre"
    by simp_all
  then show ?case
    by (simp add: compile_loop_step Cons.IH asm_text_append)
qed

lemma compile_loop_lower:
  assumes "list_all is_operation ops" and "list_all (operand_fits maxd) ops"
  shows "compile_loop maxd ops out = Inr (out @ asm_text (concat (map lower ops)))"
  using compile_loop_append [OF assms, of "[]" out] by simp

lemma exec_minus:
  "exec (lower [OpV OP_MINUS]) (m\<lparr>stack := b # a # s\<rparr>)
   = Some (m\<lparr>rax := Some b, rbx := Some (a - b), stack := (a - b) # s\<rparr>)"
  by simp

lemma str_nat_length: "n < 10 ^ k \<Longrightarrow> 0 < k \<Longrightarrow> length (str_nat n) \<le> k"
proof (induction n arbitrary: k rule: str_nat.induct)
  case (1 n)
  show ?case
  proof (cases "n < 10")
    case True
    with "1.prems" show ?thesis by (simp add: str_nat.simps [of n])
  next
    case False
    with "1.prems" obtain j where k: "k = Suc j" by (cases k) auto
    from False "1.prems" k have "0 < j" by (cases j) auto
    moreover from "1.prems"(1) k have "n div 10 < 10 ^ j" by (simp add: less_mult_imp_div_less)
    ultimately have "length (str_nat (n div 10)) \<le> j" using "1.IH" False by simp
    with False k show ?thesis by (simp add: str_nat.simps [of n])
  qed
qed

lemma within_digit_limit_mono:
  "within_digit_limit maxd n \<Longrightarrow> m \<le> n \<Longrightarrow> within_digit_limit maxd m"
  by (auto simp: within_digit_limit_def)

lemma int_fits_int64: "int64_representable i \<Longrightarrow> int_fits maxd i"
proof -
  assume "int64_representable i"
  then have "- (2 ^ 63) \<le> i" and "i < 2 ^ 63" by (simp_all add: int64_representable_def)
  moreover have "(2::int) ^ 63 < 10 ^ 19" by simp
  ultimately have "\<bar>i\<bar> < 10 ^ 19" by linarith
  then have "nat \<bar>i\<bar> < 10 ^ 19" by (simp add: nat_less_iff)
  then have "length (str_nat (nat \<bar>i\<bar>)) \<le> 19" by (rule str_nat_length) simp
  then show ?thesis by (simp add: int_fits_def Let_def)
qed

lemma literal_value_fits:
  assumes "integer_literal maxd t"
  shows "int_fits maxd (literal_value t)"
proof -
  let ?ds = "literal_digits t"
  from assms have dg: "digit_groups (literal_body t)"
    and lim: "within_digit_limit maxd (length ?ds)"
    by (simp_all add: integer_literal_def)
  from dg have "literal_body t \<noteq> []" and "is_digit (hd (literal_body t))"
    by (simp_all add: digit_groups_def)
  then have "hd (literal_body t) \<in> set ?ds" by (simp add: literal_digits_def)
  then have ne: "0 < length ?ds" by (cases ?ds) auto
  have "list_all is_digit ?ds" by (simp add: literal_digits_def list_all_iff)
  then have "decimal ?ds < 10 ^ length ?ds" by (rule decimal_bound)
  then have "length (str_nat (decimal ?ds)) \<le> length ?ds" using ne by (rule str_nat_length)
  with lim have "within_digit_limit maxd (length (str_nat (decimal ?ds)))"
    by (rule within_digit_limit_mono)
  moreover have "nat \<bar>literal_value t\<bar> = decimal ?ds" by (simp add: literal_value_def)
  ultimately show ?thesis by (simp add: int_fits_def within_digit_limit_def Let_def)
qed

lemma parse_token_as_op_operation:
  assumes "parse_token_as_op maxd token = Inr t"
  shows "is_operation t \<and> operand_fits maxd t"
proof -
  from assms consider "t = [OpV OP_PLUS]" | "t = [OpV OP_MINUS]" | "t = [OpV OP_DUMP]"
    | "integer_literal maxd token" "t = [OpV OP_PUSH_INT, IntV (literal_value token)]"
    by (auto simp: parse_token_as_op_def py_int_spec split: if_splits)
  then show ?thesis by cases (simp_all add: literal_value_fits)
qed

lemma parse_loop_operations:
  "parse_loop maxd tokens acc = (printed, ops) \<Longrightarrow>
   list_all (\<lambda>t. is_operation t \<and> operand_fits maxd t) acc \<Longrightarrow>
   list_all (\<lambda>t. is_operation t \<and> operand_fits maxd t) ops"
proof (induction tokens arbitrary: acc)
  case Nil
  then show ?case by simp
next
  case (Cons tok tokens)
  obtain f row col token where tok: "tok = (f, row, col, token)"
    by (cases tok) auto
  show ?case
  proof (cases "parse_token_as_op maxd token")
    case (Inl e)
    with Cons.prems tok show ?thesis by simp
  next
    case (Inr t)
    then have "is_operation t \<and> operand_fits maxd t" by (rule parse_token_as_op_operation)
    with Cons.prems(2) have "list_all (\<lambda>t. is_operation t \<and> operand_fits maxd t) (acc @ [t])"
      by simp
    moreover from Cons.prems(1) tok Inr have "parse_loop maxd tokens (acc @ [t]) = (printed, ops)"
      by simp
    ultimately show ?thesis by (rule Cons.IH [rotated])
  qed
qed

lemma parse_file_operations:
  assumes "parse_file maxd fs file = Inr (printed, ops)"
  shows "list_all is_operation ops \<and> list_all (operand_fits maxd) ops"
proof -
  from assms obtain tokens where "parse_loop maxd tokens [] = (printed, ops)"
    by (auto simp: parse_file_def split: sum.splits)
  then have "list_all (\<lambda>t. is_operation t \<and> operand_fits maxd t) ops"
    by (rule parse_loop_operations) simp
  then show ?thesis by (simp add: list_all_iff)
qed

section \<open>Properties of the parser\<close>

lemma parse_token_as_op_error:
  "parse_token_as_op maxd token = Inl e \<Longrightarrow> e = Exception (''Invalid token '' @ token)"
  by (auto simp: parse_token_as_op_def split: if_splits option.splits)

lemma parse_loop_find:
  "parse_loop maxd tokens acc =
     (case find (\<lambda>(f, row, col, text). isl (parse_token_as_op maxd text)) tokens of
        None \<Rightarrow> ([], acc @ map (\<lambda>(f, row, col, text). projr (parse_token_as_op maxd text)) tokens)
      | Some (f, row, col, text) \<Rightarrow> ([diagnostic f row col text], []))"
proof (induction tokens arbitrary: acc)
  case Nil
  show ?case by simp
next
  case (Cons tok tokens)
  obtain f row col token where tok: "tok = (f, row, col, token)"
    by (cases tok) auto
  show ?case
  proof (cases "parse_token_as_op maxd token")
    case (Inl e)
    then have "e = Exception (''Invalid token '' @ token)" by (rule parse_token_as_op_error)
    with Inl tok show ?thesis by (simp add: diagnostic_def)
  next
    case (Inr t)
    with tok show ?thesis by (simp add: Cons.IH split: option.splits)
  qed
qed

lemma lex_file_tokens:
  assumes "lex_file fs file = Inr tokens" and "(f, row, col, text) \<in> set tokens"
  shows "f = file \<and> (\<exists>lines. fs file = Inr lines \<and> row < length lines
           \<and> (col, text) \<in> set (lex_line (lines ! row)))"
proof -
  from assms(1) obtain lines where fs: "fs file = Inr lines"
    and toks: "tokens = concat (map (\<lambda>(row, line). map (\<lambda>(col, token). (file, row, col, token)) (lex_line line))
                           (enumerate 0 lines))"
    by (auto simp: lex_file_def split: sum.splits)
  from assms(2) toks obtain r l where rl: "(r, l) \<in> set (enumerate 0 lines)"
    and mem: "(f, row, col, text) \<in> set (map (\<lambda>(col, token). (file, r, col, token)) (lex_line l))"
    by auto
  from rl have "r < length lines" and "l = lines ! r"
    by (auto simp: in_set_enumerate_eq)
  with mem fs show ?thesis by auto
qed

lemma parse_loop_cases:
  assumes "parse_loop maxd tokens [] = (printed, ops)"
  shows "(printed = [] \<and> ops = map (\<lambda>(f, row, col, text). projr (parse_token_as_op maxd text)) tokens)
         \<or> (length printed = 1 \<and> ops = [])"
  using assms by (auto simp: parse_loop_find split: option.splits)

lemma lex_file_blank:
  assumes "fs file = Inr lines" and "\<forall>line \<in> set lines. \<forall>c \<in> set line. isspace c"
  shows "lex_file fs file = Inr []"
proof -
  have "map (\<lambda>(row, line). map (\<lambda>(col, token). (file, row, col, token)) (lex_line line))
          (enumerate 0 lines) = map (\<lambda>x. []) (enumerate 0 lines)"
  proof (rule map_cong [OF refl])
    fix x assume "x \<in> set (enumerate 0 lines)"
    then have "fst x < length lines" and "lines ! fst x = snd x"
      by (simp_all add: in_set_enumerate_eq)
    then have "snd x \<in> set lines" using nth_mem [of "fst x" lines] by simp
    with assms(2) have "lex_line (snd x) = []" by (simp add: lex_line_blank)
    then show "(case x of (row, line) \<Rightarrow> map (\<lambda>(col, token). (file, row, col, token)) (lex_line line)) = []"
      by (cases x) simp
  qed
  then have "concat (map (\<lambda>(row, line). map (\<lambda>(col, token). (file, row, col, token)) (lex_line line))
          (enumerate 0 lines)) = []"
    by simp
  with assms(1) show ?thesis by (simp add: lex_file_def)
qed

lemma parse_loop_ops_texts:
  "snd (parse_loop maxd tokens acc) =
     (if \<exists>t \<in> set (map (\<lambda>(f, row, col, text). text) tokens). isl (parse_token_as_op maxd t) then []
      else acc @ map (\<lambda>t. projr (parse_token_as_op maxd t)) (map (\<lambda>(f, row, col, text). text) tokens))"
proof (induction tokens arbitrary: acc)
  case Nil
  show ?case by simp
next
  case (Cons tok tokens)
  obtain f row col token where tok: "tok = (f, row, col, token)"
    by (cases tok) auto
  show ?case
  proof (cases "parse_token_as_op maxd token")
    case (Inl e)
    with tok show ?thesis by simp
  next
    case (Inr t)
    with tok show ?thesis by (simp add: Cons.IH)
  qed
qed

lemma lex_file_texts:
  assumes "fs file = Inr lines"
  shows "\<exists>tokens. lex_file fs file = Inr tokens
          \<and> map (\<lambda>(f, row, col, text). text) tokens = concat (map (\<lambda>line. map snd (lex_line line)) lines)"
proof -
  have "map (\<lambda>(f, row, col, text). text)
          (concat (map (\<lambda>(row, line). map (\<lambda>(col, token). (file, row, col, token)) (lex_line line)) xs))
        = concat (map (\<lambda>line. map snd (lex_line line)) (map snd xs))" for xs :: "(nat \<times> string) list"
    by (induction xs) (auto simp: case_prod_beta comp_def)
  from this [of "enumerate 0 lines"] assms show ?thesis
    by (simp add: lex_file_def)
qed

section \<open>Rules for evaluating the program on a given input\<close>

lemmas scan_eval = lex_line_def lex_line_loop.simps find_col.simps isspace_def slice_def
lemmas int_eval = py_int_def int_space_def is_digit_def digit_val_def
lemmas str_eval = str_int_def str_nat.simps
lemmas parse_eval = parse_file_def lex_file_def enumerate_eq_zip parse_token_as_op_def
lemmas fits_eval = int_fits_def str_nat.simps

lemmas literal_eval = integer_literal_def literal_body_def rstrip_def lstrip_def after_sign_def
  digit_groups_def digit_or_underscore_def within_digit_limit_def literal_digits_def
  literal_value_def literal_negative_def int_space_def is_digit_def digit_val_def

section \<open>The claims\<close>

text \<open>
  C1, as amended. The token \<^verbatim>\<open>+\<close> yields \<^verbatim>\<open>(OP_PLUS,)\<close>, \<^verbatim>\<open>-\<close> yields \<^verbatim>\<open>(OP_MINUS,)\<close> and
  \<^verbatim>\<open>.\<close> yields \<^verbatim>\<open>(OP_DUMP,)\<close>, in this order of priority. Every other token yields
  \<^verbatim>\<open>(OP_PUSH_INT, value)\<close> exactly when it is an integer literal as \<^verbatim>\<open>int\<close> reads it: after
  the white space that \<^verbatim>\<open>int\<close> skips on both sides and one optional sign \<^verbatim>\<open>+\<close> or \<^verbatim>\<open>-\<close>,
  one or more digits, where single underscores may stand between two digits, and no more
  digits than the limit of the interpreter allows; the value is the signed decimal value
  of the digits. Any other token raises the exception \<^verbatim>\<open>Invalid token\<close> with the text of the
  token.
\<close>

theorem parse_token_as_op_classification:
  "parse_token_as_op maxd t =
     (if t = ''+'' then Inr [OpV OP_PLUS]
      else if t = ''-'' then Inr [OpV OP_MINUS]
      else if t = ''.'' then Inr [OpV OP_DUMP]
      else if integer_literal maxd t then Inr [OpV OP_PUSH_INT, IntV (literal_value t)]
      else Inl (Exception (''Invalid token '' @ t)))"
  by (simp add: parse_token_as_op_def py_int_spec)

theorem parse_token_as_op_classification_witness:
  "integer_literal 4300 ''1_000'' \<and> literal_value ''1_000'' = 1000
   \<and> parse_token_as_op 4300 ''1_000'' = Inr [OpV OP_PUSH_INT, IntV 1000]
   \<and> integer_literal 4300 ''-17'' \<and> literal_value ''-17'' = - 17
   \<and> parse_token_as_op 4300 ''-17'' = Inr [OpV OP_PUSH_INT, IntV (- 17)]
   \<and> \<not> integer_literal 4300 ''12a''
   \<and> parse_token_as_op 4300 ''12a'' = Inl (Exception ''Invalid token 12a'')
   \<and> parse_token_as_op 4300 ''-'' = Inr [OpV OP_MINUS]"
proof -
  have a: "integer_literal 4300 ''1_000''" and b: "literal_value ''1_000'' = 1000"
    and c: "integer_literal 4300 ''-17''" and d: "literal_value ''-17'' = - 17"
    and e: "\<not> integer_literal 4300 ''12a''"
    by (simp_all add: literal_eval)
  from a b parse_token_as_op_classification [of 4300 "''1_000''"]
  have p1: "parse_token_as_op 4300 ''1_000'' = Inr [OpV OP_PUSH_INT, IntV 1000]" by simp
  from c d parse_token_as_op_classification [of 4300 "''-17''"]
  have p2: "parse_token_as_op 4300 ''-17'' = Inr [OpV OP_PUSH_INT, IntV (- 17)]" by simp
  from e parse_token_as_op_classification [of 4300 "''12a''"]
  have p3: "parse_token_as_op 4300 ''12a'' = Inl (Exception ''Invalid token 12a'')" by simp
  from parse_token_as_op_classification [of 4300 "''-''"]
  have p4: "parse_token_as_op 4300 ''-'' = Inr [OpV OP_MINUS]" by simp
  from a b p1 c d p2 e p3 p4 show ?thesis by (intro conjI)
qed

text \<open>
  C1 as the specification words it (an optional leading \<^verbatim>\<open>-\<close> followed by digits only)
  does not hold: the tokens \<^verbatim>\<open>+5\<close> and \<^verbatim>\<open>1_000\<close> are not of that form and still yield
  \<^verbatim>\<open>(OP_PUSH_INT, 5)\<close> and \<^verbatim>\<open>(OP_PUSH_INT, 1000)\<close>.
\<close>

theorem parse_token_as_op_classification_counterexample:
  "parse_token_as_op 4300 ''+5'' = Inr [OpV OP_PUSH_INT, IntV 5]
   \<and> \<not> spec_integer_text ''+5''
   \<and> parse_token_as_op 4300 ''1_000'' = Inr [OpV OP_PUSH_INT, IntV 1000]
   \<and> \<not> spec_integer_text ''1_000''"
  by (simp add: parse_token_as_op_def int_eval spec_integer_text_def)

text \<open>
  C2. For every file that can be read, with \<open>tokens\<close> the tokens of the scanner: if some
  token is not recognised, \<open>parse_file\<close> prints exactly one line, of the form
  \<^verbatim>\<open>Error at <file>:<row>:<col>: Invalid token <text>\<close> for the first such token, with its
  row and column counted from 1 and its text as it is, and returns the empty list, whatever
  tokens follow; if every token is recognised, it prints nothing and returns the
  operations of all tokens in order. Every token carries the name of the file, the 0-based
  index of its line and its 0-based column in that line.
\<close>

theorem parse_file_fail_fast:
  assumes "lex_file fs file = Inr tokens"
  shows "parse_file maxd fs file =
           Inr (case find (\<lambda>(f, row, col, text). isl (parse_token_as_op maxd text)) tokens of
                  None \<Rightarrow>
                    ([], map (\<lambda>(f, row, col, text). projr (parse_token_as_op maxd text)) tokens)
                | Some (f, row, col, text) \<Rightarrow>
                    ([''Error at '' @ file @ '':'' @ str_int (int row + 1) @ '':''
                        @ str_int (int col + 1) @ '': Invalid token '' @ text], []))
         \<and> (\<forall>(f, row, col, text) \<in> set tokens.
               f = file \<and> (\<exists>lines. fs file = Inr lines \<and> row < length lines
                 \<and> (col, text) \<in> set (lex_line (lines ! row))))"
proof (intro conjI)
  show "\<forall>(f, row, col, text) \<in> set tokens.
               f = file \<and> (\<exists>lines. fs file = Inr lines \<and> row < length lines
                 \<and> (col, text) \<in> set (lex_line (lines ! row)))"
    using lex_file_tokens [OF assms] by blast
  then have same: "f = file" if "(f, row, col, tx) \<in> set tokens" for f row col tx
    using that by blast
  show "parse_file maxd fs file =
           Inr (case find (\<lambda>(f, row, col, text). isl (parse_token_as_op maxd text)) tokens of
                  None \<Rightarrow>
                    ([], map (\<lambda>(f, row, col, text). projr (parse_token_as_op maxd text)) tokens)
                | Some (f, row, col, text) \<Rightarrow>
                    ([''Error at '' @ file @ '':'' @ str_int (int row + 1) @ '':''
                        @ str_int (int col + 1) @ '': Invalid token '' @ text], []))"
  proof (cases "find (\<lambda>(f, row, col, text). isl (parse_token_as_op maxd text)) tokens")
    case None
    with assms show ?thesis by (simp add: parse_file_def parse_loop_find)
  next
    case (Some tok)
    obtain f row col tx where tok: "tok = (f, row, col, tx)" by (cases tok) auto
    from Some obtain i where "i < length tokens" and "tokens ! i = tok"
      by (auto simp: find_Some_iff)
    then have "tok \<in> set tokens" by (auto simp: in_set_conv_nth)
    with tok have "f = file" by (auto dest: same)
    with assms Some tok show ?thesis
      by (simp add: parse_file_def parse_loop_find diagnostic_def)
  qed
qed

theorem parse_file_fail_fast_witness:
  "lex_file (\<lambda>f. Inr [''1 2'', '' abc + ?'']) ''prog''
     = Inr [(''prog'', 0, 0, ''1''), (''prog'', 0, 2, ''2''), (''prog'', 1, 1, ''abc''),
            (''prog'', 1, 5, ''+''), (''prog'', 1, 7, ''?'')]
   \<and> parse_file 4300 (\<lambda>f. Inr [''1 2'', '' abc + ?'']) ''prog''
     = Inr ([''Error at prog:2:2: Invalid token abc''], [])
   \<and> lex_file (\<lambda>f. Inr [''+ - .'']) ''prog''
     = Inr [(''prog'', 0, 0, ''+''), (''prog'', 0, 2, ''-''), (''prog'', 0, 4, ''.'')]
   \<and> parse_file 4300 (\<lambda>f. Inr [''+ - .'']) ''prog''
     = Inr ([], [[OpV OP_PLUS], [OpV OP_MINUS], [OpV OP_DUMP]])"
proof -
  have l1: "lex_file (\<lambda>f. Inr [''1 2'', '' abc + ?'']) ''prog''
     = Inr [(''prog'', 0, 0, ''1''), (''prog'', 0, 2, ''2''), (''prog'', 1, 1, ''abc''),
            (''prog'', 1, 5, ''+''), (''prog'', 1, 7, ''?'')]"
    by (simp add: lex_file_def enumerate_eq_zip scan_eval)
  have l2: "lex_file (\<lambda>f. Inr [''+ - .'']) ''prog''
     = Inr [(''prog'', 0, 0, ''+''), (''prog'', 0, 2, ''-''), (''prog'', 0, 4, ''.'')]"
    by (simp add: lex_file_def enumerate_eq_zip scan_eval)
  from parse_file_fail_fast [OF l1, of 4300]
  have p1: "parse_file 4300 (\<lambda>f. Inr [''1 2'', '' abc + ?'']) ''prog''
     = Inr ([''Error at prog:2:2: Invalid token abc''], [])"
    by (simp add: parse_token_as_op_def int_eval str_eval)
  from parse_file_fail_fast [OF l2, of 4300]
  have p2: "parse_file 4300 (\<lambda>f. Inr [''+ - .'']) ''prog''
     = Inr ([], [[OpV OP_PLUS], [OpV OP_MINUS], [OpV OP_DUMP]])"
    by (simp add: parse_token_as_op_def)
  from l1 p1 l2 p2 show ?thesis by (intro conjI)
qed

text \<open>
  C3. For every program (a list of operations whose operands \<^verbatim>\<open>%d\<close> can format, as all
  64-bit operands are), \<open>compile_ops\<close> returns the fixed text of the \<^verbatim>\<open>dump\<close> subroutine,
  then the entry point \<^verbatim>\<open>_start\<close>, then the instruction templates of the operations, one
  after the other in program order, then the fixed epilogue that makes the exit system call
  (number 60) with code 0. The texts before and after the operations are written out here
  in full: they do not depend on the program. So are the four templates.
\<close>

theorem compile_ops_framing:
  assumes "list_all is_operation ops" and "list_all (operand_fits maxd) ops"
  shows "compile_ops maxd ops =
           Inr (''BITS 64\<newline>''
          @ ''segment .text\<newline>''
          @ ''dump:\<newline>''
          @ ''    mov     r9, -3689348814741910323\<newline>''
          @ ''    sub     rsp, 40\<newline>''
          @ ''    mov     BYTE [rsp+31], 10\<newline>''
          @ ''    lea     rcx, [rsp+30]\<newline>''
          @ ''.L2:\<newline>''
          @ ''    mov     rax, rdi\<newline>''
          @ ''    lea     r8, [rsp+32]\<newline>''
          @ ''    mul     r9\<newline>''
          @ ''    mov     rax, rdi\<newline>''
          @ ''    sub     r8, rcx\<newline>''
          @ ''    shr     rdx, 3\<newline>''
          @ ''    lea     rsi, [rdx+rdx*4]\<newline>''
          @ ''    add     rsi, rsi\<newline>''
          @ ''    sub     rax, rsi\<newline>''
          @ ''    add     eax, 48\<newline>''
          @ ''    mov     BYTE [rcx], al\<newline>''
          @ ''    mov     rax, rdi\<newline>''
          @ ''    mov     rdi, rdx\<newline>''
          @ ''    mov     rdx, rcx\<newline>''
          @ ''    sub     rcx, 1\<newline>''
          @ ''    cmp     rax, 9\<newline>''
          @ ''    ja      .L2\<newline>''
          @ ''    lea     rax, [rsp+32]\<newline>''
          @ ''    mov     edi, 1\<newline>''
          @ ''    sub     rdx, rax\<newline>''
          @ ''    xor     eax, eax\<newline>''
          @ ''    lea     rsi, [rsp+32+rdx]\<newline>''
          @ ''    mov     rdx, r8\<newline>''
          @ ''    mov     rax, 1\<newline>''
          @ ''    syscall\<newline>''
          @ ''    add     rsp, 40\<newline>''
          @ ''    ret\<newline>''
          @ ''global _start\<newline>''
          @ ''_start:\<newline>''
          @ concat (map (\<lambda>op. asm_text (lower op)) ops)
          @ ''    ;; -- exit --\<newline>''
          @ ''    mov rax, 60\<newline>''
          @ ''    mov rdi, 0\<newline>''
          @ ''    syscall\<newline>'')
         \<and> (\<forall>i. int64_representable i \<longrightarrow> operand_fits maxd [OpV OP_PUSH_INT, IntV i])
         \<and> (\<forall>i. asm_text (lower [OpV OP_PUSH_INT, IntV i]) =
                ''    ;; -- push '' @ str_int i @ '' --\<newline>''
                @ ''    push '' @ str_int i @ ''\<newline>'')
         \<and> asm_text (lower [OpV OP_PLUS]) =
               ''    ;; -- add --\<newline>'' @ ''    pop rax\<newline>'' @ ''    pop rbx\<newline>''
               @ ''    add rax, rbx\<newline>'' @ ''    push rax\<newline>''
         \<and> asm_text (lower [OpV OP_MINUS]) =
               ''    ;; -- sub --\<newline>'' @ ''    pop rax\<newline>'' @ ''    pop rbx\<newline>''
               @ ''    sub rbx, rax\<newline>'' @ ''    push rbx\<newline>''
         \<and> asm_text (lower [OpV OP_DUMP]) =
               ''    ;; -- dump --\<newline>'' @ ''    pop rdi\<newline>'' @ ''    call dump\<newline>''"
proof (intro conjI allI impI)
  show "asm_text (lower [OpV OP_PUSH_INT, IntV i]) =
                ''    ;; -- push '' @ str_int i @ '' --\<newline>''
                @ ''    push '' @ str_int i @ ''\<newline>''" for i
    by (simp add: asm_text_def)
  show "asm_text (lower [OpV OP_PLUS]) =
               ''    ;; -- add --\<newline>'' @ ''    pop rax\<newline>'' @ ''    pop rbx\<newline>''
               @ ''    add rax, rbx\<newline>'' @ ''    push rax\<newline>''"
    by (simp add: asm_text_def)
  show "asm_text (lower [OpV OP_MINUS]) =
               ''    ;; -- sub --\<newline>'' @ ''    pop rax\<newline>'' @ ''    pop rbx\<newline>''
               @ ''    sub rbx, rax\<newline>'' @ ''    push rbx\<newline>''"
    by (simp add: asm_text_def)
  show "asm_text (lower [OpV OP_DUMP]) =
               ''    ;; -- dump --\<newline>'' @ ''    pop rdi\<newline>'' @ ''    call dump\<newline>''"
    by (simp add: asm_text_def)
next
  from assms have "compile_ops maxd ops =
      Inr ((dump_subroutine @ entry_point) @ asm_text (concat (map lower ops)) @ exit_epilogue)"
    by (simp add: compile_ops_def compile_loop_lower)
  then show "compile_ops maxd ops =
           Inr (''BITS 64\<newline>''
          @ ''segment .text\<newline>''
          @ ''dump:\<newline>''
          @ ''    mov     r9, -3689348814741910323\<newline>''
          @ ''    sub     rsp, 40\<newline>''
          @ ''    mov     BYTE [rsp+31], 10\<newline>''
          @ ''    lea     rcx, [rsp+30]\<newline>''
          @ ''.L2:\<newline>''
          @ ''    mov     rax, rdi\<newline>''
          @ ''    lea     r8, [rsp+32]\<newline>''
          @ ''    mul     r9\<newline>''
          @ ''    mov     rax, rdi\<newline>''
          @ ''    sub     r8, rcx\<newline>''
          @ ''    shr     rdx, 3\<newline>''
          @ ''    lea     rsi, [rdx+rdx*4]\<newline>''
          @ ''    add     rsi, rsi\<newline>''
          @ ''    sub     rax, rsi\<newline>''
          @ ''    add     eax, 48\<newline>''
          @ ''    mov     BYTE [rcx], al\<newline>''
          @ ''    mov     rax, rdi\<newline>''
          @ ''    mov     rdi, rdx\<newline>''
          @ ''    mov     rdx, rcx\<newline>''
          @ ''    sub     rcx, 1\<newline>''
          @ ''    cmp     rax, 9\<newline>''
          @ ''    ja      .L2\<newline>''
          @ ''    lea     rax, [rsp+32]\<newline>''
          @ ''    mov     edi, 1\<newline>''
          @ ''    sub     rdx, rax\<newline>''
          @ ''    xor     eax, eax\<newline>''
          @ ''    lea     rsi, [rsp+32+rdx]\<newline>''
          @ ''    mov     rdx, r8\<newline>''
          @ ''    mov     rax, 1\<newline>''
          @ ''    syscall\<newline>''
          @ ''    add     rsp, 40\<newline>''
          @ ''    ret\<newline>''
          @ ''global _start\<newline>''
          @ ''_start:\<newline>''
          @ concat (map (\<lambda>op. asm_text (lower op)) ops)
          @ ''    ;; -- exit --\<newline>''
          @ ''    mov rax, 60\<newline>''
          @ ''    mov rdi, 0\<newline>''
          @ ''    syscall\<newline>'')"
    by (simp add: asm_text_concat comp_def dump_subroutine_def entry_point_def exit_epilogue_def)
next
  fix i :: int
  assume "int64_representable i"
  then show "operand_fits maxd [OpV OP_PUSH_INT, IntV i]" by (simp add: int_fits_int64)
qed

theorem compile_ops_framing_witness:
  "list_all is_operation
     [[OpV OP_PUSH_INT, IntV 2], [OpV OP_PUSH_INT, IntV 3], [OpV OP_PLUS], [OpV OP_DUMP]]
   \<and> list_all (operand_fits 4300)
     [[OpV OP_PUSH_INT, IntV 2], [OpV OP_PUSH_INT, IntV 3], [OpV OP_PLUS], [OpV OP_DUMP]]
   \<and> compile_ops 4300
       [[OpV OP_PUSH_INT, IntV 2], [OpV OP_PUSH_INT, IntV 3], [OpV OP_PLUS], [OpV OP_DUMP]]
     = Inr (''BITS 64\<newline>''
          @ ''segment .text\<newline>''
          @ ''dump:\<newline>''
          @ ''    mov     r9, -3689348814741910323\<newline>''
          @ ''    sub     rsp, 40\<newline>''
          @ ''    mov     BYTE [rsp+31], 10\<newline>''
          @ ''    lea     rcx, [rsp+30]\<newline>''
          @ ''.L2:\<newline>''
          @ ''    mov     rax, rdi\<newline>''
          @ ''    lea     r8, [rsp+32]\<newline>''
          @ ''    mul     r9\<newline>''
          @ ''    mov     rax, rdi\<newline>''
          @ ''    sub     r8, rcx\<newline>''
          @ ''    shr     rdx, 3\<newline>''
          @ ''    lea     rsi, [rdx+rdx*4]\<newline>''
          @ ''    add     rsi, rsi\<newline>''
          @ ''    sub     rax, rsi\<newline>''
          @ ''    add     eax, 48\<newline>''
          @ ''    mov     BYTE [rcx], al\<newline>''
          @ ''    mov     rax, rdi\<newline>''
          @ ''    mov     rdi, rdx\<newline>''
          @ ''    mov     rdx, rcx\<newline>''
          @ ''    sub     rcx, 1\<newline>''
          @ ''    cmp     rax, 9\<newline>''
          @ ''    ja      .L2\<newline>''
          @ ''    lea     rax, [rsp+32]\<newline>''
          @ ''    mov     edi, 1\<newline>''
          @ ''    sub     rdx, rax\<newline>''
          @ ''    xor     eax, eax\<newline>''
          @ ''    lea     rsi, [rsp+32+rdx]\<newline>''
          @ ''    mov     rdx, r8\<newline>''
          @ ''    mov     rax, 1\<newline>''
          @ ''    syscall\<newline>''
          @ ''    add     rsp, 40\<newline>''
          @ ''    ret\<newline>''
          @ ''global _start\<newline>''
          @ ''_start:\<newline>''
          @ ''    ;; -- push 2 --\<newline>''
          @ ''    push 2\<newline>''
          @ ''    ;; -- push 3 --\<newline>''
          @ ''    push 3\<newline>''
          @ ''    ;; -- add --\<newline>''
          @ ''    pop rax\<newline>''
          @ ''    pop rbx\<newline>''
          @ ''    add rax, rbx\<newline>''
          @ ''    push rax\<newline>''
          @ ''    ;; -- dump --\<newline>''
          @ ''    pop rdi\<newline>''
          @ ''    call dump\<newline>''
          @ ''    ;; -- exit --\<newline>''
          @ ''    mov rax, 60\<newline>''
          @ ''    mov rdi, 0\<newline>''
          @ ''    syscall\<newline>'')
   \<and> int64_representable 3 \<and> operand_fits 4300 [OpV OP_PUSH_INT, IntV 3]"
proof -
  let ?ops = "[[OpV OP_PUSH_INT, IntV 2], [OpV OP_PUSH_INT, IntV 3], [OpV OP_PLUS], [OpV OP_DUMP]]"
  have wf: "list_all is_operation ?ops" by simp
  have fits: "list_all (operand_fits 4300) ?ops" by (simp add: fits_eval)
  have r: "int64_representable 3" by (simp add: int64_representable_def)
  from compile_ops_framing [OF wf fits, THEN conjunct1]
  have c: "compile_ops 4300 ?ops
     = Inr (''BITS 64\<newline>''
          @ ''segment .text\<newline>''
          @ ''dump:\<newline>''
          @ ''    mov     r9, -3689348814741910323\<newline>''
          @ ''    sub     rsp, 40\<newline>''
          @ ''    mov     BYTE [rsp+31], 10\<newline>''
          @ ''    lea     rcx, [rsp+30]\<newline>''
          @ ''.L2:\<newline>''
          @ ''    mov     rax, rdi\<newline>''
          @ ''    lea     r8, [rsp+32]\<newline>''
          @ ''    mul     r9\<newline>''
          @ ''    mov     rax, rdi\<newline>''
          @ ''    sub     r8, rcx\<newline>''
          @ ''    shr     rdx, 3\<newline>''
          @ ''    lea     rsi, [rdx+rdx*4]\<newline>''
          @ ''    add     rsi, rsi\<newline>''
          @ ''    sub     rax, rsi\<newline>''
          @ ''    add     eax, 48\<newline>''
          @ ''    mov     BYTE [rcx], al\<newline>''
          @ ''    mov     rax, rdi\<newline>''
          @ ''    mov     rdi, rdx\<newline>''
          @ ''    mov     rdx, rcx\<newline>''
          @ ''    sub     rcx, 1\<newline>''
          @ ''    cmp     rax, 9\<newline>''
          @ ''    ja      .L2\<newline>''
          @ ''    lea     rax, [rsp+32]\<newline>''
          @ ''    mov     edi, 1\<newline>''
          @ ''    sub     rdx, rax\<newline>''
          @ ''    xor     eax, eax\<newline>''
          @ ''    lea     rsi, [rsp+32+rdx]\<newline>''
          @ ''    mov     rdx, r8\<newline>''
          @ ''    mov     rax, 1\<newline>''
          @ ''    syscall\<newline>''
          @ ''    add     rsp, 40\<newline>''
          @ ''    ret\<newline>''
          @ ''global _start\<newline>''
          @ ''_start:\<newline>''
          @ ''    ;; -- push 2 --\<newline>''
          @ ''    push 2\<newline>''
          @ ''    ;; -- push 3 --\<newline>''
          @ ''    push 3\<newline>''
          @ ''    ;; -- add --\<newline>''
          @ ''    pop rax\<newline>''
          @ ''    pop rbx\<newline>''
          @ ''    add rax, rbx\<newline>''
          @ ''    push rax\<newline>''
          @ ''    ;; -- dump --\<newline>''
          @ ''    pop rdi\<newline>''
          @ ''    call dump\<newline>''
          @ ''    ;; -- exit --\<newline>''
          @ ''    mov rax, 60\<newline>''
          @ ''    mov rdi, 0\<newline>''
          @ ''    syscall\<newline>'')"
    by (simp add: asm_text_def str_eval)
  from compile_ops_framing [OF wf fits, THEN conjunct2, THEN conjunct1] r
  have f: "operand_fits 4300 [OpV OP_PUSH_INT, IntV 3]" by blast
  from wf fits c r f show ?thesis by (intro conjI)
qed

text \<open>
  C4. For every line, \<open>lex_line\<close> yields exactly one token for each maximal run of
  characters that are not white space: the tokens yielded are the pairs of a run's 0-based
  start offset and its text, they come in strictly increasing order of their columns (so
  from left to right and none twice), a line of white space only (or the empty line)
  yields no token, and no token text contains a white-space character.
\<close>

theorem lex_line_maximal_runs:
  "set (lex_line line) = {(i, slice line i j) | i j. is_run line i j}
   \<and> sorted_wrt (\<lambda>a b. fst a < fst b) (lex_line line)
   \<and> ((\<forall>c \<in> set line. isspace c) \<longrightarrow> lex_line line = [])
   \<and> (\<forall>(c, t) \<in> set (lex_line line). \<forall>ch \<in> set t. \<not> isspace ch)"
proof (intro conjI)
  show "set (lex_line line) = {(i, slice line i j) | i j. is_run line i j}"
    by (rule lex_line_runs)
  show "sorted_wrt (\<lambda>a b. fst a < fst b) (lex_line line)"
    by (rule lex_line_sorted)
  show "(\<forall>c \<in> set line. isspace c) \<longrightarrow> lex_line line = []"
    by (rule impI) (rule lex_line_blank)
  show "\<forall>(c, t) \<in> set (lex_line line). \<forall>ch \<in> set t. \<not> isspace ch"
  proof (intro ballI, clarify)
    fix c t ch
    assume "(c, t) \<in> set (lex_line line)" and "ch \<in> set t"
    then show "isspace ch \<Longrightarrow> False" using lex_line_no_space by simp
  qed
qed

theorem lex_line_maximal_runs_witness:
  "is_run ''  ab c'' 2 4 \<and> (2, ''ab'') \<in> set (lex_line ''  ab c'')
   \<and> isspace (CHR 0x20) \<and> isspace (CHR 0x09) \<and> lex_line [CHR 0x20, CHR 0x09] = []"
proof -
  have "{2..<4::nat} = {2, 3}" by auto
  then have r: "is_run ''  ab c'' 2 4" by (simp add: is_run_def isspace_def)
  have s: "slice ''  ab c'' 2 4 = ''ab''" by (simp add: slice_def)
  have "set (lex_line ''  ab c'') = {(i, slice ''  ab c'' i j) | i j. is_run ''  ab c'' i j}"
    using lex_line_maximal_runs [of "''  ab c''"] by (rule conjunct1)
  moreover from r have "(2, slice ''  ab c'' 2 4) \<in> {(i, slice ''  ab c'' i j) | i j. is_run ''  ab c'' i j}"
    by blast
  ultimately have m: "(2, ''ab'') \<in> set (lex_line ''  ab c'')"
    by (simp only: s)
  have b1: "isspace (CHR 0x20)" and b2: "isspace (CHR 0x09)" by (simp_all add: isspace_def)
  then have b: "\<forall>c \<in> set [CHR 0x20, CHR 0x09]. isspace c" by simp
  have "(\<forall>c \<in> set [CHR 0x20, CHR 0x09]. isspace c) \<longrightarrow> lex_line [CHR 0x20, CHR 0x09] = []"
    using lex_line_maximal_runs [of "[CHR 0x20, CHR 0x09]"] by (rule conjunct1 [OF conjunct2 [OF conjunct2]])
  with b have e: "lex_line [CHR 0x20, CHR 0x09] = []" by (rule rev_mp)
  from r m b1 b2 e show ?thesis by (intro conjI)
qed

text \<open>
  C5. For every program (operands as in C3) and every position \<open>k\<close> that holds a
  \<^verbatim>\<open>OP_MINUS\<close> operation, the text that \<open>compile_ops\<close> returns has, between the templates of
  the operations before and after \<open>k\<close>, the fixed template
  \<^verbatim>\<open>pop rax; pop rbx; sub rbx, rax; push rbx\<close>. Run on a stack whose top is \<open>b\<close> and whose
  next value is \<open>a\<close>, the template pops \<open>b\<close> first, then \<open>a\<close>, and pushes \<open>a - b\<close>: the
  value pushed earlier is the minuend. For the source \<^verbatim>\<open>10 3 - .\<close> the code hands 7 to the
  \<^verbatim>\<open>dump\<close> routine.
\<close>

theorem minus_operand_order:
  assumes "list_all is_operation ops" and "list_all (operand_fits maxd) ops"
    and "k < length ops" and "ops ! k = [OpV OP_MINUS]"
  shows "compile_ops maxd ops =
           Inr (dump_subroutine @ entry_point
                @ asm_text (concat (map lower (take k ops)))
                @ asm_text (lower [OpV OP_MINUS])
                @ asm_text (concat (map lower (drop (Suc k) ops)))
                @ exit_epilogue)
         \<and> asm_text (lower [OpV OP_MINUS]) =
             ''    ;; -- sub --\<newline>'' @ ''    pop rax\<newline>'' @ ''    pop rbx\<newline>''
             @ ''    sub rbx, rax\<newline>'' @ ''    push rbx\<newline>''
         \<and> exec (lower [OpV OP_MINUS]) (m\<lparr>stack := b # a # s\<rparr>)
             = Some (m\<lparr>rax := Some b, rbx := Some (a - b), stack := (a - b) # s\<rparr>)"
proof (intro conjI)
  have split: "ops = take k ops @ [OpV OP_MINUS] # drop (Suc k) ops"
    using id_take_nth_drop [OF assms(3)] assms(4) by simp
  have "asm_text (concat (map lower ops)) =
      asm_text (concat (map lower (take k ops))) @ asm_text (lower [OpV OP_MINUS])
      @ asm_text (concat (map lower (drop (Suc k) ops)))"
    by (subst split) (simp add: asm_text_append del: lower.simps)
  with assms(1,2) show "compile_ops maxd ops =
           Inr (dump_subroutine @ entry_point
                @ asm_text (concat (map lower (take k ops)))
                @ asm_text (lower [OpV OP_MINUS])
                @ asm_text (concat (map lower (drop (Suc k) ops)))
                @ exit_epilogue)"
    by (simp add: compile_ops_def compile_loop_lower del: lower.simps)
  show "asm_text (lower [OpV OP_MINUS]) =
             ''    ;; -- sub --\<newline>'' @ ''    pop rax\<newline>'' @ ''    pop rbx\<newline>''
             @ ''    sub rbx, rax\<newline>'' @ ''    push rbx\<newline>''"
    by (simp add: asm_text_def)
  show "exec (lower [OpV OP_MINUS]) (m\<lparr>stack := b # a # s\<rparr>)
             = Some (m\<lparr>rax := Some b, rbx := Some (a - b), stack := (a - b) # s\<rparr>)"
    by (rule exec_minus)
qed

theorem minus_operand_order_witness:
  "parse_file 4300 (\<lambda>f. Inr [''10 3 - .'']) ''prog'' =
     Inr ([], [[OpV OP_PUSH_INT, IntV 10], [OpV OP_PUSH_INT, IntV 3], [OpV OP_MINUS], [OpV OP_DUMP]])
   \<and> list_all is_operation
       [[OpV OP_PUSH_INT, IntV 10], [OpV OP_PUSH_INT, IntV 3], [OpV OP_MINUS], [OpV OP_DUMP]]
   \<and> list_all (operand_fits 4300)
       [[OpV OP_PUSH_INT, IntV 10], [OpV OP_PUSH_INT, IntV 3], [OpV OP_MINUS], [OpV OP_DUMP]]
   \<and> compile_ops 4300
       [[OpV OP_PUSH_INT, IntV 10], [OpV OP_PUSH_INT, IntV 3], [OpV OP_MINUS], [OpV OP_DUMP]]
     = Inr (dump_subroutine @ entry_point
            @ ''    ;; -- push 10 --\<newline>'' @ ''    push 10\<newline>''
            @ ''    ;; -- push 3 --\<newline>'' @ ''    push 3\<newline>''
            @ ''    ;; -- sub --\<newline>'' @ ''    pop rax\<newline>'' @ ''    pop rbx\<newline>''
            @ ''    sub rbx, rax\<newline>'' @ ''    push rbx\<newline>''
            @ ''    ;; -- dump --\<newline>'' @ ''    pop rdi\<newline>'' @ ''    call dump\<newline>''
            @ exit_epilogue)
   \<and> map_option dumped
       (exec (concat (map lower
          [[OpV OP_PUSH_INT, IntV 10], [OpV OP_PUSH_INT, IntV 3], [OpV OP_MINUS], [OpV OP_DUMP]]))
          start_state) = Some [7]"
proof -
  let ?ops = "[[OpV OP_PUSH_INT, IntV 10], [OpV OP_PUSH_INT, IntV 3], [OpV OP_MINUS], [OpV OP_DUMP]]"
  have p: "parse_file 4300 (\<lambda>f. Inr [''10 3 - .'']) ''prog'' = Inr ([], ?ops)"
    by (simp add: parse_eval scan_eval int_eval)
  have wf: "list_all is_operation ?ops" by simp
  have fits: "list_all (operand_fits 4300) ?ops" by (simp add: fits_eval)
  have k: "2 < length ?ops" and m: "?ops ! 2 = [OpV OP_MINUS]" by simp_all
  from minus_operand_order [OF wf fits k m, where m = start_state and b = 0 and a = 0 and s = "[]"]
  have c: "compile_ops 4300 ?ops
     = Inr (dump_subroutine @ entry_point
            @ ''    ;; -- push 10 --\<newline>'' @ ''    push 10\<newline>''
            @ ''    ;; -- push 3 --\<newline>'' @ ''    push 3\<newline>''
            @ ''    ;; -- sub --\<newline>'' @ ''    pop rax\<newline>'' @ ''    pop rbx\<newline>''
            @ ''    sub rbx, rax\<newline>'' @ ''    push rbx\<newline>''
            @ ''    ;; -- dump --\<newline>'' @ ''    pop rdi\<newline>'' @ ''    call dump\<newline>''
            @ exit_epilogue)"
    by (simp add: asm_text_def str_eval)
  have e: "map_option dumped (exec (concat (map lower ?ops)) start_state) = Some [7]"
    by (simp add: start_state_def)
  from p wf fits c e show ?thesis by (intro conjI)
qed

text \<open>
  C6. Given, after well-formed operations, a tuple whose first component \<open>h\<close> is not one
  of the four members of \<open>Op\<close> (an integer or \<^verbatim>\<open>None\<close>) and that \<^verbatim>\<open>%s\<close> can format,
  \<open>compile_ops\<close> raises the exception whose message is \<^verbatim>\<open>Invalid op\<close> followed by the
  text of \<open>h\<close>. Every list that \<open>parse_file\<close> returns consists of operations only, with
  operands that \<^verbatim>\<open>%d\<close> can format, so for it \<open>compile_ops\<close> returns a text and that branch
  is not reached.
\<close>

theorem invalid_op_unreachable:
  "(list_all is_operation pre \<and> list_all (operand_fits maxd) pre
      \<and> (\<forall>x. h \<noteq> OpV x) \<and> py_str maxd h = Inr shown \<longrightarrow>
      compile_ops maxd (pre @ (h # args) # post) = Inl (Exception (''Invalid op '' @ shown)))
   \<and> (parse_file maxd fs file = Inr (printed, ops) \<longrightarrow>
      list_all is_operation ops \<and> list_all (operand_fits maxd) ops
      \<and> compile_ops maxd ops =
          Inr (dump_subroutine @ entry_point @ asm_text (concat (map lower ops)) @ exit_epilogue))"
proof (intro conjI impI)
  assume a: "list_all is_operation pre \<and> list_all (operand_fits maxd) pre
      \<and> (\<forall>x. h \<noteq> OpV x) \<and> py_str maxd h = Inr shown"
  then have "compile_loop maxd (pre @ (h # args) # post) (dump_subroutine @ entry_point)
      = compile_loop maxd ((h # args) # post)
          ((dump_subroutine @ entry_point) @ asm_text (concat (map lower pre)))"
    by (simp add: compile_loop_append)
  also from a have "\<dots> = Inl (Exception (''Invalid op '' @ shown))" by simp
  finally show "compile_ops maxd (pre @ (h # args) # post)
      = Inl (Exception (''Invalid op '' @ shown))"
    by (simp add: compile_ops_def)
next
  assume "parse_file maxd fs file = Inr (printed, ops)"
  then have wf: "list_all is_operation ops \<and> list_all (operand_fits maxd) ops"
    by (rule parse_file_operations)
  then show "list_all is_operation ops" and "list_all (operand_fits maxd) ops" by simp_all
  from wf show "compile_ops maxd ops =
      Inr (dump_subroutine @ entry_point @ asm_text (concat (map lower ops)) @ exit_epilogue)"
    by (simp add: compile_ops_def compile_loop_lower)
qed

theorem invalid_op_unreachable_witness:
  "list_all is_operation [[OpV OP_PUSH_INT, IntV 1]]
   \<and> list_all (operand_fits 4300) [[OpV OP_PUSH_INT, IntV 1]]
   \<and> py_str 4300 NoneV = Inr ''None''
   \<and> compile_ops 4300 [[OpV OP_PUSH_INT, IntV 1], [NoneV], [OpV OP_DUMP]]
       = Inl (Exception ''Invalid op None'')
   \<and> py_str 4300 (IntV 7) = Inr ''7''
   \<and> compile_ops 4300 [[OpV OP_PUSH_INT, IntV 1], [IntV 7, IntV 0], [OpV OP_DUMP]]
       = Inl (Exception ''Invalid op 7'')
   \<and> parse_file 4300 (\<lambda>f. Inr [''1 2 +'']) ''prog''
       = Inr ([], [[OpV OP_PUSH_INT, IntV 1], [OpV OP_PUSH_INT, IntV 2], [OpV OP_PLUS]])
   \<and> list_all is_operation [[OpV OP_PUSH_INT, IntV 1], [OpV OP_PUSH_INT, IntV 2], [OpV OP_PLUS]]
   \<and> list_all (operand_fits 4300)
       [[OpV OP_PUSH_INT, IntV 1], [OpV OP_PUSH_INT, IntV 2], [OpV OP_PLUS]]
   \<and> compile_ops 4300 [[OpV OP_PUSH_INT, IntV 1], [OpV OP_PUSH_INT, IntV 2], [OpV OP_PLUS]]
       = Inr (dump_subroutine @ entry_point
              @ asm_text (concat (map lower
                  [[OpV OP_PUSH_INT, IntV 1], [OpV OP_PUSH_INT, IntV 2], [OpV OP_PLUS]]))
              @ exit_epilogue)"
proof -
  let ?pre = "[[OpV OP_PUSH_INT, IntV 1]]"
  let ?ops = "[[OpV OP_PUSH_INT, IntV 1], [OpV OP_PUSH_INT, IntV 2], [OpV OP_PLUS]]"
  have wf: "list_all is_operation ?pre" by simp
  have fits: "list_all (operand_fits 4300) ?pre" by (simp add: fits_eval)
  have s1: "py_str 4300 NoneV = Inr ''None''" by simp
  have s2: "py_str 4300 (IntV 7) = Inr ''7''" by (simp add: int_to_str_def str_eval)
  have n1: "\<forall>x. NoneV \<noteq> OpV x" and n2: "\<forall>x. IntV 7 \<noteq> OpV x" by simp_all
  have p: "parse_file 4300 (\<lambda>f. Inr [''1 2 +'']) ''prog'' = Inr ([], ?ops)"
    by (simp add: parse_eval scan_eval int_eval)
  have "list_all is_operation ?pre \<and> list_all (operand_fits 4300) ?pre
      \<and> (\<forall>x. NoneV \<noteq> OpV x) \<and> py_str 4300 NoneV = Inr ''None'' \<longrightarrow>
      compile_ops 4300 (?pre @ (NoneV # []) # [[OpV OP_DUMP]])
        = Inl (Exception (''Invalid op '' @ ''None''))"
    by (rule invalid_op_unreachable [THEN conjunct1])
  with wf fits n1 s1 have a: "compile_ops 4300 [[OpV OP_PUSH_INT, IntV 1], [NoneV], [OpV OP_DUMP]]
       = Inl (Exception ''Invalid op None'')"
    by simp
  have "list_all is_operation ?pre \<and> list_all (operand_fits 4300) ?pre
      \<and> (\<forall>x. IntV 7 \<noteq> OpV x) \<and> py_str 4300 (IntV 7) = Inr ''7'' \<longrightarrow>
      compile_ops 4300 (?pre @ (IntV 7 # [IntV 0]) # [[OpV OP_DUMP]])
        = Inl (Exception (''Invalid op '' @ ''7''))"
    by (rule invalid_op_unreachable [THEN conjunct1])
  with wf fits n2 s2 have b: "compile_ops 4300 [[OpV OP_PUSH_INT, IntV 1], [IntV 7, IntV 0], [OpV OP_DUMP]]
       = Inl (Exception ''Invalid op 7'')"
    by simp
  have "parse_file 4300 (\<lambda>f. Inr [''1 2 +'']) ''prog'' = Inr ([], ?ops) \<longrightarrow>
      list_all is_operation ?ops \<and> list_all (operand_fits 4300) ?ops
      \<and> compile_ops 4300 ?ops =
          Inr (dump_subroutine @ entry_point @ asm_text (concat (map lower ?ops)) @ exit_epilogue)"
    by (rule invalid_op_unreachable [THEN conjunct2])
  with p have c: "list_all is_operation ?ops \<and> list_all (operand_fits 4300) ?ops
      \<and> compile_ops 4300 ?ops =
          Inr (dump_subroutine @ entry_point @ asm_text (concat (map lower ?ops)) @ exit_epilogue)"
    by (rule rev_mp)
  from wf fits s1 a s2 b p c show ?thesis by (intro conjI) simp_all
qed

text \<open>
  C7. When the list that \<open>parse_file\<close> returns is empty (no token at all, as for an empty
  file or one of white space only, or a token that was not recognised), \<open>main\<close> only
  prints: the diagnostic, if any, and the empty list. It writes no file and starts no
  program, and the code generator has no part in the result. When the list is not empty,
  nothing was printed and the list holds the operations of all tokens: the code generator
  never gets a part of a program.
\<close>

theorem main_degenerate_run:
  assumes "2 \<le> length argv"
  shows "(parse_file maxd fs (argv ! 1) = Inr (printed, ops) \<and> (ops = [] \<or> printed \<noteq> []) \<longrightarrow>
            main maxd fs world argv = map Print printed @ [Print ''[]''])
         \<and> (fs (argv ! 1) = Inr lines \<and> (\<forall>line \<in> set lines. \<forall>c \<in> set line. isspace c) \<longrightarrow>
            main maxd fs world argv = [Print ''[]''])
         \<and> (lex_file fs (argv ! 1) = Inr tokens \<and> parse_file maxd fs (argv ! 1) = Inr (printed, ops)
              \<and> ops \<noteq> [] \<longrightarrow>
            printed = []
            \<and> ops = map (\<lambda>(f, row, col, text). projr (parse_token_as_op maxd text)) tokens)"
proof (intro conjI impI)
  assume a: "parse_file maxd fs (argv ! 1) = Inr (printed, ops) \<and> (ops = [] \<or> printed \<noteq> [])"
  then obtain tokens where "parse_loop maxd tokens [] = (printed, ops)"
    by (auto simp: parse_file_def split: sum.splits)
  from parse_loop_cases [OF this] a have "ops = []" by auto
  with a assms show "main maxd fs world argv = map Print printed @ [Print ''[]'']"
    by (simp add: main_def repr_list_def)
next
  assume "fs (argv ! 1) = Inr lines \<and> (\<forall>line \<in> set lines. \<forall>c \<in> set line. isspace c)"
  then have "lex_file fs (argv ! 1) = Inr []" by (simp add: lex_file_blank)
  then have "parse_file maxd fs (argv ! 1) = Inr ([], [])" by (simp add: parse_file_def)
  with assms show "main maxd fs world argv = [Print ''[]'']"
    by (simp add: main_def repr_list_def)
next
  assume a: "lex_file fs (argv ! 1) = Inr tokens \<and> parse_file maxd fs (argv ! 1) = Inr (printed, ops)
              \<and> ops \<noteq> []"
  then have "parse_loop maxd tokens [] = (printed, ops)" by (auto simp: parse_file_def)
  from parse_loop_cases [OF this] a
  show "printed = []" and "ops = map (\<lambda>(f, row, col, text). projr (parse_token_as_op maxd text)) tokens"
    by auto
qed

theorem main_degenerate_run_witness:
  "parse_file 4300 (\<lambda>f. Inr [''1 2'', '' abc +'']) ''prog''
     = Inr ([''Error at prog:2:2: Invalid token abc''], [])
   \<and> main 4300 (\<lambda>f. Inr [''1 2'', '' abc +'']) (\<lambda>a. None) [''main.py'', ''prog'']
     = [Print ''Error at prog:2:2: Invalid token abc'', Print ''[]'']
   \<and> isspace (CHR 0x20) \<and> isspace (CHR 0x0A)
   \<and> main 4300 (\<lambda>f. Inr [[CHR 0x20, CHR 0x0A], [CHR 0x0A]]) (\<lambda>a. None) [''main.py'', ''prog'']
     = [Print ''[]'']
   \<and> lex_file (\<lambda>f. Inr [''4 .'']) ''prog'' = Inr [(''prog'', 0, 0, ''4''), (''prog'', 0, 2, ''.'')]
   \<and> parse_file 4300 (\<lambda>f. Inr [''4 .'']) ''prog''
     = Inr ([], [[OpV OP_PUSH_INT, IntV 4], [OpV OP_DUMP]])
   \<and> [[OpV OP_PUSH_INT, IntV 4], [OpV OP_DUMP]]
     = map (\<lambda>(f, row, col, text). projr (parse_token_as_op 4300 text))
         [(''prog'', 0 :: nat, 0 :: nat, ''4''), (''prog'', 0, 2, ''.'')]"
proof -
  let ?argv = "[''main.py'', ''prog'']"
  have len: "2 \<le> length ?argv" by simp
  have p1: "parse_file 4300 (\<lambda>f. Inr [''1 2'', '' abc +'']) (?argv ! 1)
     = Inr ([''Error at prog:2:2: Invalid token abc''], [])"
    by (simp add: parse_eval scan_eval int_eval str_eval)
  have "parse_file 4300 (\<lambda>f. Inr [''1 2'', '' abc +'']) (?argv ! 1)
          = Inr ([''Error at prog:2:2: Invalid token abc''], [])
        \<and> (([]::pytuple list) = [] \<or> [''Error at prog:2:2: Invalid token abc''] \<noteq> []) \<longrightarrow>
        main 4300 (\<lambda>f. Inr [''1 2'', '' abc +'']) (\<lambda>a. None) ?argv
          = map Print [''Error at prog:2:2: Invalid token abc''] @ [Print ''[]'']"
    using main_degenerate_run [OF len] by (rule conjunct1)
  with p1 have m1: "main 4300 (\<lambda>f. Inr [''1 2'', '' abc +'']) (\<lambda>a. None) ?argv
      = [Print ''Error at prog:2:2: Invalid token abc'', Print ''[]'']"
    by simp
  have s1: "isspace (CHR 0x20)" and s2: "isspace (CHR 0x0A)" by (simp_all add: isspace_def)
  have "(\<lambda>f. Inr [[CHR 0x20, CHR 0x0A], [CHR 0x0A]] :: error + string list) (?argv ! 1)
          = Inr [[CHR 0x20, CHR 0x0A], [CHR 0x0A]]
        \<and> (\<forall>line \<in> set [[CHR 0x20, CHR 0x0A], [CHR 0x0A]]. \<forall>c \<in> set line. isspace c) \<longrightarrow>
        main 4300 (\<lambda>f. Inr [[CHR 0x20, CHR 0x0A], [CHR 0x0A]]) (\<lambda>a. None) ?argv = [Print ''[]'']"
    using main_degenerate_run [OF len] by (rule conjunct1 [OF conjunct2])
  with s1 s2 have m2: "main 4300 (\<lambda>f. Inr [[CHR 0x20, CHR 0x0A], [CHR 0x0A]]) (\<lambda>a. None) ?argv
      = [Print ''[]'']"
    by simp
  have l3: "lex_file (\<lambda>f. Inr [''4 .'']) ''prog'' = Inr [(''prog'', 0, 0, ''4''), (''prog'', 0, 2, ''.'')]"
    by (simp add: lex_file_def enumerate_eq_zip scan_eval)
  have p3: "parse_file 4300 (\<lambda>f. Inr [''4 .'']) ''prog''
     = Inr ([], [[OpV OP_PUSH_INT, IntV 4], [OpV OP_DUMP]])"
    by (simp add: parse_eval scan_eval int_eval)
  have "lex_file (\<lambda>f. Inr [''4 .'']) (?argv ! 1) = Inr [(''prog'', 0, 0, ''4''), (''prog'', 0, 2, ''.'')]
        \<and> parse_file 4300 (\<lambda>f. Inr [''4 .'']) (?argv ! 1)
            = Inr ([], [[OpV OP_PUSH_INT, IntV 4], [OpV OP_DUMP]])
        \<and> [[OpV OP_PUSH_INT, IntV 4], [OpV OP_DUMP]] \<noteq> [] \<longrightarrow>
        ([]::string list) = []
        \<and> [[OpV OP_PUSH_INT, IntV 4], [OpV OP_DUMP]]
          = map (\<lambda>(f, row, col, text). projr (parse_token_as_op 4300 text))
              [(''prog'', 0 :: nat, 0 :: nat, ''4''), (''prog'', 0, 2, ''.'')]"
    using main_degenerate_run [OF len] by (rule conjunct2 [OF conjunct2])
  with l3 p3 have c3: "[[OpV OP_PUSH_INT, IntV 4], [OpV OP_DUMP]]
          = map (\<lambda>(f, row, col, text). projr (parse_token_as_op 4300 text))
              [(''prog'', 0 :: nat, 0 :: nat, ''4''), (''prog'', 0, 2, ''.'')]"
    by simp
  from p1 m1 s1 s2 m2 l3 p3 c3 show ?thesis by (intro conjI) simp_all
qed

text \<open>
  C8, as amended. For every token that the parser accepts as an integer literal, the
  operand of \<^verbatim>\<open>OP_PUSH_INT\<close> is the exact value of the literal, an integer without bound
  whose magnitude is below 10 to the number of digits of the token; it is a 64-bit signed
  integer whenever the token has at most 18 digits.
\<close>

theorem push_int_width:
  assumes "parse_token_as_op maxd t = Inr [OpV OP_PUSH_INT, IntV v]"
  shows "v = literal_value t \<and> \<bar>v\<bar> < 10 ^ length (filter is_digit t)
         \<and> (length (filter is_digit t) \<le> 18 \<longrightarrow> int64_representable v)"
proof -
  from assms have v: "v = literal_value t"
    by (auto simp: parse_token_as_op_def py_int_spec split: if_splits)
  have b: "\<bar>v\<bar> < 10 ^ length (filter is_digit t)"
    unfolding v by (rule literal_value_bound)
  have "int64_representable v" if "length (filter is_digit t) \<le> 18"
  proof -
    from that have "(10::int) ^ length (filter is_digit t) \<le> 10 ^ 18"
      by (intro power_increasing) simp_all
    with b have "\<bar>v\<bar> < 10 ^ 18" by simp
    then have "- (10 ^ 18) < v" and "v < 10 ^ 18" by (simp_all add: abs_less_iff)
    moreover have "(10::int) ^ 18 < 2 ^ 63" by simp
    ultimately show ?thesis unfolding int64_representable_def by linarith
  qed
  with v b show ?thesis by simp
qed

theorem push_int_width_witness:
  "parse_token_as_op 4300 ''-42'' = Inr [OpV OP_PUSH_INT, IntV (- 42)]
   \<and> length (filter is_digit ''-42'') \<le> 18
   \<and> int64_representable (- 42)"
proof -
  have p: "parse_token_as_op 4300 ''-42'' = Inr [OpV OP_PUSH_INT, IntV (- 42)]"
    by (simp add: parse_token_as_op_def int_eval)
  have l: "length (filter is_digit ''-42'') \<le> 18" by (simp add: is_digit_def)
  from push_int_width [OF p] have "length (filter is_digit ''-42'') \<le> 18 \<longrightarrow> int64_representable (- 42)"
    by (rule conjunct2 [OF conjunct2])
  with l have "int64_representable (- 42)" by (rule rev_mp)
  with p l show ?thesis by (intro conjI)
qed

text \<open>
  C8 as the specification words it does not hold: the token \<^verbatim>\<open>9223372036854775808\<close> is
  accepted, and its operand \<open>2 ^ 63\<close> is not a 64-bit signed integer.
\<close>

theorem push_int_width_counterexample:
  "parse_token_as_op 4300 ''9223372036854775808'' = Inr [OpV OP_PUSH_INT, IntV 9223372036854775808]
   \<and> \<not> int64_representable 9223372036854775808"
  by (simp add: parse_token_as_op_def int_eval int64_representable_def)

text \<open>
  C9. The assembly text is determined by the source text: two runs of the pipeline
  (\<open>parse_file\<close>, then \<open>compile_ops\<close>) on files with the same lines give the same result,
  whatever the names of the files and whatever else the file systems hold.
\<close>

theorem pipeline_deterministic:
  assumes "fs1 file1 = Inr lines" and "fs2 file2 = Inr lines"
  shows "pipeline maxd fs1 file1 = pipeline maxd fs2 file2"
proof -
  from lex_file_texts [of fs1 file1 lines, OF assms(1)] obtain t1 where t1: "lex_file fs1 file1 = Inr t1"
    and m1: "map (\<lambda>(f, row, col, text). text) t1 = concat (map (\<lambda>line. map snd (lex_line line)) lines)"
    by blast
  from lex_file_texts [of fs2 file2 lines, OF assms(2)] obtain t2 where t2: "lex_file fs2 file2 = Inr t2"
    and m2: "map (\<lambda>(f, row, col, text). text) t2 = concat (map (\<lambda>line. map snd (lex_line line)) lines)"
    by blast
  from m1 m2 have "snd (parse_loop maxd t1 []) = snd (parse_loop maxd t2 [])"
    by (simp only: parse_loop_ops_texts)
  with t1 t2 show ?thesis
    by (simp add: pipeline_def parse_file_def case_prod_beta)
qed

theorem pipeline_deterministic_witness:
  "pipeline 4300 (\<lambda>f. Inr [''2 3 + .'']) ''a''
     = pipeline 4300 (\<lambda>f. if f = ''b'' then Inr [''2 3 + .''] else Inl (OSError ''No such file''))
         ''b''
   \<and> pipeline 4300 (\<lambda>f. Inr [''2 3 + .'']) ''a''
     = compile_ops 4300 [[OpV OP_PUSH_INT, IntV 2], [OpV OP_PUSH_INT, IntV 3], [OpV OP_PLUS], [OpV OP_DUMP]]"
proof -
  have "(\<lambda>f. Inr [''2 3 + .''] :: error + string list) ''a'' = Inr [''2 3 + .'']" by simp
  moreover have "(\<lambda>f. if f = ''b'' then Inr [''2 3 + .''] else Inl (OSError ''No such file'')) ''b''
      = Inr [''2 3 + .'']"
    by simp
  ultimately have "pipeline 4300 (\<lambda>f. Inr [''2 3 + .'']) ''a''
     = pipeline 4300 (\<lambda>f. if f = ''b'' then Inr [''2 3 + .''] else Inl (OSError ''No such file''))
         ''b''"
    by (rule pipeline_deterministic)
  moreover have "pipeline 4300 (\<lambda>f. Inr [''2 3 + .'']) ''a''
     = compile_ops 4300 [[OpV OP_PUSH_INT, IntV 2], [OpV OP_PUSH_INT, IntV 3], [OpV OP_PLUS], [OpV OP_DUMP]]"
    by (simp add: pipeline_def parse_eval scan_eval int_eval)
  ultimately show ?thesis by (intro conjI)
qed

text \<open>
  C10. \<open>compile_ops\<close> of the empty list does not fail: it returns the text of the \<^verbatim>\<open>dump\<close>
  subroutine, the entry point and the exit epilogue, written out here in full, with nothing
  in between; that text is not empty.
\<close>

theorem compile_ops_empty:
  "compile_ops maxd [] =
     Inr (''BITS 64\<newline>''
          @ ''segment .text\<newline>''
          @ ''dump:\<newline>''
          @ ''    mov     r9, -3689348814741910323\<newline>''
          @ ''    sub     rsp, 40\<newline>''
          @ ''    mov     BYTE [rsp+31], 10\<newline>''
          @ ''    lea     rcx, [rsp+30]\<newline>''
          @ ''.L2:\<newline>''
          @ ''    mov     rax, rdi\<newline>''
          @ ''    lea     r8, [rsp+32]\<newline>''
          @ ''    mul     r9\<newline>''
          @ ''    mov     rax, rdi\<newline>''
          @ ''    sub     r8, rcx\<newline>''
          @ ''    shr     rdx, 3\<newline>''
          @ ''    lea     rsi, [rdx+rdx*4]\<newline>''
          @ ''    add     rsi, rsi\<newline>''
          @ ''    sub     rax, rsi\<newline>''
          @ ''    add     eax, 48\<newline>''
          @ ''    mov     BYTE [rcx], al\<newline>''
          @ ''    mov     rax, rdi\<newline>''
          @ ''    mov     rdi, rdx\<newline>''
          @ ''    mov     rdx, rcx\<newline>''
          @ ''    sub     rcx, 1\<newline>''
          @ ''    cmp     rax, 9\<newline>''
          @ ''    ja      .L2\<newline>''
          @ ''    lea     rax, [rsp+32]\<newline>''
          @ ''    mov     edi, 1\<newline>''
          @ ''    sub     rdx, rax\<newline>''
          @ ''    xor     eax, eax\<newline>''
          @ ''    lea     rsi, [rsp+32+rdx]\<newline>''
          @ ''    mov     rdx, r8\<newline>''
          @ ''    mov     rax, 1\<newline>''
          @ ''    syscall\<newline>''
          @ ''    add     rsp, 40\<newline>''
          @ ''    ret\<newline>''
          @ ''global _start\<newline>''
          @ ''_start:\<newline>''
          @ ''    ;; -- exit --\<newline>''
          @ ''    mov rax, 60\<newline>''
          @ ''    mov rdi, 0\<newline>''
          @ ''    syscall\<newline>'')
   \<and> compile_ops maxd [] \<noteq> Inr []"
  by (simp add: compile_ops_def dump_subroutine_def entry_point_def exit_epilogue_def)

end
